theory Spec2Isabelle
  imports Main
begin

section \<open>Strings\<close>

text \<open>
  Transcript text is modelled as ASCII: a string is a list of characters, and the
  JavaScript string methods the pipeline calls (\<open>trim\<close>, \<open>toLowerCase\<close>,
  \<open>toUpperCase\<close>, \<open>includes\<close>, \<open>split(/\s+/)\<close>, \<open>charAt\<close>, \<open>slice\<close>)
  are written out on such lists.
\<close>

definition is_space :: "char \<Rightarrow> bool" where
  "is_space c \<longleftrightarrow> (let n = (of_char c :: nat) in n = 32 \<or> (9 \<le> n \<and> n \<le> 13))"

definition trim :: "string \<Rightarrow> string" where
  "trim s = rev (dropWhile is_space (rev (dropWhile is_space s)))"

definition lower_char :: "char \<Rightarrow> char" where
  "lower_char c = (let n = (of_char c :: nat) in if 65 \<le> n \<and> n \<le> 90 then char_of (n + 32) else c)"

definition upper_char :: "char \<Rightarrow> char" where
  "upper_char c = (let n = (of_char c :: nat) in if 97 \<le> n \<and> n \<le> 122 then char_of (n - 32) else c)"

definition toLowerCase :: "string \<Rightarrow> string" where
  "toLowerCase s = map lower_char s"

fun startsWith :: "string \<Rightarrow> string \<Rightarrow> bool" where
  "startsWith s [] = True"
| "startsWith [] (k # ks) = False"
| "startsWith (c # cs) (k # ks) = (c = k \<and> startsWith cs ks)"

fun includesStr :: "string \<Rightarrow> string \<Rightarrow> bool" where
  "includesStr [] k = (k = [])"
| "includesStr (c # cs) k = (startsWith (c # cs) k \<or> includesStr cs k)"

text \<open>\<open>s.split(/\s+/)\<close>: the pieces between maximal runs of white space; a leading or
  trailing run leaves an empty piece, and the empty string gives one empty piece.\<close>

fun splitWs :: "string \<Rightarrow> string list" where
  "splitWs [] = [[]]"
| "splitWs (c # cs) =
     (if is_space c then
        (case cs of
           [] \<Rightarrow> [[], []]
         | d # _ \<Rightarrow> if is_space d then splitWs cs else [] # splitWs cs)
      else
        (case splitWs cs of
           [] \<Rightarrow> [[c]]
         | t # ts \<Rightarrow> (c # t) # ts))"

text \<open>\<open>s.charAt(0).toUpperCase() + s.slice(1)\<close>\<close>

fun capitalize :: "string \<Rightarrow> string" where
  "capitalize [] = []"
| "capitalize (c # cs) = upper_char c # cs"

section \<open>Person and company normalisers\<close>

definition nameVariations :: "(string \<times> string) list" where
  "nameVariations =
    [(''mike'', ''michael''), (''mike.'', ''michael''), (''mich'', ''michael''),
     (''jim'', ''james''), (''jimmy'', ''james''), (''jim.'', ''james''),
     (''bob'', ''robert''), (''bobby'', ''robert''), (''rob'', ''robert''),
     (''dick'', ''richard''), (''rick'', ''richard''), (''rich'', ''richard''),
     (''bill'', ''william''), (''billy'', ''william''), (''will'', ''william''),
     (''tom'', ''thomas''), (''tommy'', ''thomas''),
     (''dan'', ''daniel''), (''danny'', ''daniel''),
     (''dave'', ''david''), (''davey'', ''david''),
     (''chris'', ''christopher''), (''nick'', ''nicholas''), (''alex'', ''alexander''),
     (''steve'', ''steven''), (''ben'', ''benjamin''), (''matt'', ''matthew''),
     (''tony'', ''anthony''), (''joe'', ''joseph''), (''joey'', ''joseph''),
     (''sam'', ''samuel''), (''sammy'', ''samuel''), (''andy'', ''andrew''),
     (''pat'', ''patrick''), (''pete'', ''peter''), (''ed'', ''edward''),
     (''eddie'', ''edward''), (''ted'', ''theodore''), (''frank'', ''francis''),
     (''greg'', ''gregory''), (''jeff'', ''jeffrey''), (''ken'', ''kenneth''),
     (''kenny'', ''kenneth''), (''brad'', ''bradley''), (''marc'', ''mark''),
     (''jon'', ''jonathan''), (''johnny'', ''jonathan''), (''tim'', ''timothy''),
     (''timmy'', ''timothy'')]"

text \<open>\<open>nameVariations[firstName] || firstName\<close>: the first name is looked up among the
  keys the table itself lists and kept when it has no entry. (The property names every
  JavaScript object inherits, such as \<open>constructor\<close>, are outside the model.)\<close>

definition normalizedFirstName :: "string \<Rightarrow> string" where
  "normalizedFirstName firstName =
     (case map_of nameVariations firstName of Some v \<Rightarrow> v | None \<Rightarrow> firstName)"

definition firstNameOf :: "string \<Rightarrow> string" where
  "firstNameOf analystName =
     (case splitWs (trim analystName) of [] \<Rightarrow> [] | p # _ \<Rightarrow> toLowerCase p)"

definition lastNameOf :: "string \<Rightarrow> string" where
  "lastNameOf analystName =
     (case rev (splitWs (trim analystName)) of [] \<Rightarrow> [] | p # _ \<Rightarrow> toLowerCase p)"

definition normalizeAnalystName :: "string \<Rightarrow> string" where
  "normalizeAnalystName analystName =
     capitalize (normalizedFirstName (firstNameOf analystName)) @ '' '' @
     capitalize (lastNameOf analystName)"

definition institutions :: "(string \<times> string) list" where
  "institutions =
    [(''jpmorgan'', ''JPMorgan Chase''), (''jp morgan'', ''JPMorgan Chase''),
     (''goldman'', ''Goldman Sachs''), (''goldman sachs'', ''Goldman Sachs''),
     (''morgan stanley'', ''Morgan Stanley''), (''barclays'', ''Barclays''),
     (''citigroup'', ''Citigroup''), (''citi'', ''Citigroup''),
     (''bank of america'', ''Bank of America''), (''bofa'', ''Bank of America''),
     (''wells fargo'', ''Wells Fargo''), (''deutsche bank'', ''Deutsche Bank''),
     (''credit suisse'', ''Credit Suisse''), (''ubs'', ''UBS''), (''hsbc'', ''HSBC''),
     (''rbc'', ''Royal Bank of Canada''), (''royal bank'', ''Royal Bank of Canada''),
     (''scotia'', ''Scotiabank''), (''scotiabank'', ''Scotiabank''),
     (''td bank'', ''TD Bank''), (''bmo'', ''Bank of Montreal''),
     (''jefferies'', ''Jefferies''), (''cowen'', ''Cowen''),
     (''piper sandler'', ''Piper Sandler''), (''wedbush'', ''Wedbush''),
     (''oppenheimer'', ''Oppenheimer''), (''stifel'', ''Stifel''),
     (''raymond james'', ''Raymond James''), (''baird'', ''Baird''),
     (''mizuho'', ''Mizuho''), (''evercore'', ''Evercore''),
     (''canaccord'', ''Canaccord Genuity'')]"

fun firstInstitution :: "string \<Rightarrow> (string \<times> string) list \<Rightarrow> string option" where
  "firstInstitution companyLower [] = None"
| "firstInstitution companyLower ((key, value) # rest) =
     (if includesStr companyLower key then Some value else firstInstitution companyLower rest)"

definition normalizeCompanyName :: "string \<Rightarrow> string" where
  "normalizeCompanyName company =
     (case firstInstitution (toLowerCase company) institutions of
        Some value \<Rightarrow> value
      | None \<Rightarrow> company)"

section \<open>Analyst question records and their consolidation\<close>

record AnalystQuestion =
  analystName :: string
  analystTitle :: string
  analystCompany :: string
  question :: string
  transcriptId :: int
  symbol :: string
  quarter :: string
  year :: int
  transcriptTitle :: string

text \<open>
  The records are JavaScript objects that consolidation overwrites in place, and the
  arrays and maps it builds hold references to them. A reference is a number, the heap
  gives the record behind each reference, and an array of records is a list of references.
\<close>

type_synonym ref = nat
type_synonym heap = "ref \<Rightarrow> AnalystQuestion"

text \<open>A \<open>Map\<close> from keys to arrays keeps its keys in insertion order;
  \<open>if (!m.has(k)) m.set(k, []); m.get(k).push(q)\<close> is \<open>pushToGroup\<close>.\<close>

fun pushToGroup :: "'k \<Rightarrow> ref \<Rightarrow> ('k \<times> ref list) list \<Rightarrow> ('k \<times> ref list) list" where
  "pushToGroup k q [] = [(k, [q])]"
| "pushToGroup k q ((k', qs) # g) =
     (if k' = k then (k', qs @ [q]) # g else (k', qs) # pushToGroup k q g)"

definition transcriptGroups :: "heap \<Rightarrow> ref list \<Rightarrow> (int \<times> ref list) list" where
  "transcriptGroups h questions =
     foldl (\<lambda>g q. pushToGroup (transcriptId (h q)) q g) [] questions"

definition assignOperatorCompany :: "(string \<rightharpoonup> string) \<Rightarrow> heap \<Rightarrow> ref \<Rightarrow> heap" where
  "assignOperatorCompany operatorAnalystInfo h q =
     (case operatorAnalystInfo (trim (analystName (h q))) of
        None \<Rightarrow> h
      | Some operatorCompany \<Rightarrow>
          (let normalizedCompany = normalizeCompanyName operatorCompany
           in if analystCompany (h q) \<noteq> normalizedCompany
              then h(q := (h q)\<lparr>analystCompany := normalizedCompany\<rparr>)
              else h))"

text \<open>First loop pair of \<open>applyCompanyWideAnalystConsolidation\<close>: the transcript groups in
  insertion order, each question assigned and pushed to \<open>transcriptProcessedQuestions\<close>.\<close>

definition applyTranscriptAssignments ::
    "(string \<rightharpoonup> string) \<Rightarrow> heap \<Rightarrow> ref list \<Rightarrow> heap \<times> ref list" where
  "applyTranscriptAssignments operatorAnalystInfo h questions =
     foldl (\<lambda>st (tid, transcriptQuestions).
              foldl (\<lambda>(h', processed) q. (assignOperatorCompany operatorAnalystInfo h' q, processed @ [q]))
                    st transcriptQuestions)
           (h, []) (transcriptGroups h questions)"

definition symbolGroups :: "heap \<Rightarrow> ref list \<Rightarrow> (string \<times> ref list) list" where
  "symbolGroups h processed =
     foldl (\<lambda>g q. pushToGroup (symbol (h q)) q g) [] processed"

record analystGroup =
  normalizedName :: string
  originalNames :: "string list"
  knownCompany :: string
  entries :: "ref list"

definition updateGroup ::
    "string \<Rightarrow> (analystGroup \<Rightarrow> analystGroup) \<Rightarrow> (string \<times> analystGroup) list \<Rightarrow> (string \<times> analystGroup) list" where
  "updateGroup k f groups = map (\<lambda>(k', g). if k' = k then (k', f g) else (k', g)) groups"

definition addQuestionToGroups :: "heap \<Rightarrow> (string \<times> analystGroup) list \<Rightarrow> ref \<Rightarrow> (string \<times> analystGroup) list" where
  "addQuestionToGroups h groups q =
     (let name = trim (analystName (h q));
          nn = normalizeAnalystName name;
          company = analystCompany (h q);
          groups1 =
            (if map_of groups nn = None
             then groups @ [(nn, \<lparr>normalizedName = nn, originalNames = [],
                                 knownCompany = (if company \<noteq> ''Unknown'' then company else []),
                                 entries = []\<rparr>)]
             else groups)
      in updateGroup nn
           (\<lambda>g. g\<lparr>originalNames := (if name \<in> set (originalNames g) then originalNames g
                                      else originalNames g @ [name]),
                  knownCompany := (if company \<noteq> ''Unknown'' then company else knownCompany g),
                  entries := entries g @ [q]\<rparr>)
           groups1)"

definition analystNameGroups :: "heap \<Rightarrow> ref list \<Rightarrow> (string \<times> analystGroup) list" where
  "analystNameGroups h symbolQuestions = foldl (addQuestionToGroups h) [] symbolQuestions"

text \<open>The loop body over \<open>entries\<close>; \<open>if (knownCompany && ...)\<close> is false for the empty string.\<close>

definition consolidateEntry :: "string \<Rightarrow> string \<Rightarrow> heap \<Rightarrow> ref \<Rightarrow> heap" where
  "consolidateEntry preferredName known h entry =
     (let h1 = (if analystName (h entry) \<noteq> preferredName
                then h(entry := (h entry)\<lparr>analystName := preferredName\<rparr>) else h)
      in if known \<noteq> [] \<and> analystCompany (h1 entry) \<noteq> known
         then h1(entry := (h1 entry)\<lparr>analystCompany := known\<rparr>) else h1)"

definition consolidateGroup :: "heap \<times> ref list \<Rightarrow> string \<times> analystGroup \<Rightarrow> heap \<times> ref list" where
  "consolidateGroup st kg =
     (case st of (h, final) \<Rightarrow> case kg of (nn, g) \<Rightarrow>
        (foldl (consolidateEntry nn (knownCompany g)) h (entries g), final @ entries g))"

definition consolidateSymbol :: "heap \<times> ref list \<Rightarrow> string \<times> ref list \<Rightarrow> heap \<times> ref list" where
  "consolidateSymbol st sg =
     (case sg of (symb, symbolQuestions) \<Rightarrow>
        foldl consolidateGroup st (analystNameGroups (fst st) symbolQuestions))"

definition applyCompanyWideAnalystConsolidation ::
    "heap \<Rightarrow> ref list \<Rightarrow> (string \<rightharpoonup> string) \<Rightarrow> heap \<times> ref list" where
  "applyCompanyWideAnalystConsolidation h questions operatorAnalystInfo =
     (case applyTranscriptAssignments operatorAnalystInfo h questions of
        (h1, transcriptProcessedQuestions) \<Rightarrow>
          foldl consolidateSymbol (h1, []) (symbolGroups h1 transcriptProcessedQuestions))"

section \<open>Transcripts, turns and extraction\<close>

text \<open>
  A stored transcript's \<open>content\<close> is a string. \<open>JSON.parse\<close> and the regular-expression engine
  are JavaScript's own: the model takes the parser and the results of each regular
  expression of the source as parameters. A parsed value is modelled by what the
  extraction code can observe of it: whether \<open>for ... of\<close> can iterate it, and for each
  element whether it is \<open>null\<close>, an object with \<open>speaker\<close>, \<open>title\<close> and \<open>content\<close>
  (each a string, or absent), or a value without such properties (a number, a string,
  a boolean). A JSON string iterates as its characters, which are such values. Properties
  holding a JSON value other than a string are outside the model.
\<close>

datatype jsError = TypeError

record segment =
  speaker :: "string option"
  title :: "string option"
  content :: "string option"

datatype element = Object segment | Null | Primitive

datatype json = Array "element list" | NotIterable

record Transcript =
  trId :: int
  trSymbol :: string
  trQuarter :: string
  trYear :: int
  trTitle :: string
  trContent :: string

text \<open>
  The regular expressions of the source, by the place that uses them:
  \<^item> \<open>speakerLine\<close>: \<open>line.match(/^(.+?)\s*\((.+?)\):\s*([\s\S]+)$/)\<close>, the three groups;
  \<^item> \<open>operatorPatterns\<close>: the four patterns of \<open>extractOperatorAnalystInfo\<close> in order, each
    giving groups 1 and 2 of its successive \<open>exec\<close> matches on the content;
  \<^item> \<open>lineOf\<close>: \<open>.replace(/^(the line of|line of)\s+/gi, '')\<close>;
  \<^item> \<open>fillers\<close>: \<open>.replace(/\b(please go ahead|go ahead|your question)\b/gi, '')\<close>;
  \<^item> \<open>questionWords\<close>: \<open>/\b(what|how|when|where|why|can you|could you|would you|do you|are you|will you|is there)\b/i.test(content)\<close>;
  \<^item> \<open>titlePatterns\<close>: the seven patterns of \<open>extractCompany\<close> in order, each giving group 1
    of \<open>title.match(pattern)\<close>;
  \<^item> \<open>roleWords\<close>: \<open>.replace(/\b(analyst|research|equity)\b/gi, '')\<close>.
\<close>

record regexps =
  speakerLine :: "string \<Rightarrow> (string \<times> string \<times> string) option"
  operatorPatterns :: "(string \<Rightarrow> (string \<times> string) list) list"
  lineOf :: "string \<Rightarrow> string"
  fillers :: "string \<Rightarrow> string"
  questionWords :: "string \<Rightarrow> bool"
  titlePatterns :: "(string \<Rightarrow> string option) list"
  roleWords :: "string \<Rightarrow> string"

text \<open>\<open>content.split('\n\n')\<close>\<close>

fun splitParagraphs :: "string \<Rightarrow> string list" where
  "splitParagraphs [] = [[]]"
| "splitParagraphs [c] = [[c]]"
| "splitParagraphs (c # d # cs) =
     (if c = CHR 0x0A \<and> d = CHR 0x0A then [] # splitParagraphs cs
      else (case splitParagraphs (d # cs) of
              [] \<Rightarrow> [[c]]
            | t # ts \<Rightarrow> (c # t) # ts))"

definition textSegments :: "regexps \<Rightarrow> string \<Rightarrow> element list" where
  "textSegments rx text =
     concat (map (\<lambda>line. case speakerLine rx line of
                           None \<Rightarrow> []
                         | Some (s, t, c) \<Rightarrow> [Object \<lparr>speaker = Some s, title = Some t, content = Some c\<rparr>])
                 (splitParagraphs text))"

text \<open>\<open>try { segments = JSON.parse(content) } catch (e) { ... text lines ... }\<close>\<close>

definition segmentsOf :: "(string \<Rightarrow> json option) \<Rightarrow> regexps \<Rightarrow> string \<Rightarrow> json" where
  "segmentsOf parse rx text =
     (case parse text of
        Some j \<Rightarrow> j
      | None \<Rightarrow> Array (textSegments rx text))"

text \<open>Reading a property of an element: a \<open>TypeError\<close> on \<open>null\<close>, \<open>undefined\<close> on a value
  without properties.\<close>

fun readProps :: "element \<Rightarrow> jsError + segment" where
  "readProps (Object s) = Inr s"
| "readProps Null = Inl TypeError"
| "readProps Primitive = Inr \<lparr>speaker = None, title = None, content = None\<rparr>"

text \<open>\<open>s || ''\<close>\<close>

definition orEmpty :: "string option \<Rightarrow> string" where
  "orEmpty s = (case s of None \<Rightarrow> [] | Some t \<Rightarrow> t)"

text \<open>\<open>company.replace(/[.,;]$/, '')\<close>\<close>

definition stripTrailingPunct :: "string \<Rightarrow> string" where
  "stripTrailingPunct s =
     (if s \<noteq> [] \<and> last s \<in> {CHR ''.'', CHR '','', CHR '';''} then butlast s else s)"

definition cleanOperatorMatch :: "regexps \<Rightarrow> string \<times> string \<Rightarrow> (string \<times> string) option" where
  "cleanOperatorMatch rx m =
     (let name = trim (lineOf rx (trim (fst m)));
          company = trim (stripTrailingPunct (trim (fillers rx (trim (snd m)))))
      in if length name > 0 \<and> length company > 0 then Some (name, company) else None)"

definition scanOperatorContent :: "regexps \<Rightarrow> string \<Rightarrow> (string \<rightharpoonup> string) \<Rightarrow> (string \<rightharpoonup> string)" where
  "scanOperatorContent rx text info =
     foldl (\<lambda>info1 pattern.
              foldl (\<lambda>info2 m. case cleanOperatorMatch rx m of
                                  None \<Rightarrow> info2
                                | Some (name, company) \<Rightarrow> info2(name \<mapsto> company))
                    info1 (pattern text))
           info (operatorPatterns rx)"

text \<open>The loop \<open>for (const segment of segments)\<close> of \<open>extractOperatorAnalystInfo\<close>, gated by
  \<open>segment.speaker?.toLowerCase().includes('operator')\<close>.\<close>

fun operatorInfoLoop :: "regexps \<Rightarrow> element list \<Rightarrow> (string \<rightharpoonup> string) \<Rightarrow> jsError + (string \<rightharpoonup> string)" where
  "operatorInfoLoop rx [] info = Inr info"
| "operatorInfoLoop rx (e # es) info =
     (case readProps e of
        Inl err \<Rightarrow> Inl err
      | Inr seg \<Rightarrow>
          (case speaker seg of
             None \<Rightarrow> operatorInfoLoop rx es info
           | Some s \<Rightarrow>
               if includesStr (toLowerCase s) ''operator''
               then operatorInfoLoop rx es (scanOperatorContent rx (orEmpty (content seg)) info)
               else operatorInfoLoop rx es info))"

definition extractOperatorAnalystInfo ::
    "(string \<Rightarrow> json option) \<Rightarrow> regexps \<Rightarrow> Transcript \<Rightarrow> jsError + (string \<rightharpoonup> string)" where
  "extractOperatorAnalystInfo parse rx transcript =
     (case segmentsOf parse rx (trContent transcript) of
        NotIterable \<Rightarrow> Inl TypeError
      | Array segments \<Rightarrow> operatorInfoLoop rx segments Map.empty)"

fun extractCompanyFrom :: "regexps \<Rightarrow> (string \<Rightarrow> string option) list \<Rightarrow> string \<Rightarrow> string" where
  "extractCompanyFrom rx [] ttl = ''Unknown''"
| "extractCompanyFrom rx (pattern # patterns) ttl =
     (case pattern ttl of
        None \<Rightarrow> extractCompanyFrom rx patterns ttl
      | Some g \<Rightarrow>
          if g = [] then extractCompanyFrom rx patterns ttl
          else (let company = trim (roleWords rx (trim g))
                in if length company > 2 \<and> \<not> includesStr (toLowerCase company) ''unknown''
                   then normalizeCompanyName company
                   else extractCompanyFrom rx patterns ttl))"

definition extractCompany :: "regexps \<Rightarrow> string \<Rightarrow> string" where
  "extractCompany rx ttl = extractCompanyFrom rx (titlePatterns rx) ttl"

definition isAnalystTitle :: "string \<Rightarrow> bool" where
  "isAnalystTitle speakerTitle =
     ((includesStr (toLowerCase speakerTitle) ''analyst'' \<or>
       includesStr (toLowerCase speakerTitle) ''research'' \<or>
       includesStr (toLowerCase speakerTitle) ''equity'') \<and>
      \<not> includesStr (toLowerCase speakerTitle) ''operator'' \<and>
      \<not> includesStr (toLowerCase speakerTitle) ''ceo'' \<and>
      \<not> includesStr (toLowerCase speakerTitle) ''cfo'' \<and>
      \<not> includesStr (toLowerCase speakerTitle) ''investor relations'')"

definition hasQuestion :: "regexps \<Rightarrow> string \<Rightarrow> bool" where
  "hasQuestion rx text = (includesStr text ''?'' \<or> questionWords rx text)"

text \<open>The loop body of \<open>extractAnalystQuestionsFromSingleTranscript\<close>: \<open>Inr None\<close> when the
  turn gives no record. \<open>speakerTitle.toLowerCase()\<close>, \<open>content.includes\<close> and
  \<open>speakerName.trim()\<close> raise on an absent value.\<close>

definition questionOfSegment ::
    "regexps \<Rightarrow> Transcript \<Rightarrow> (string \<rightharpoonup> string) \<Rightarrow> segment \<Rightarrow> jsError + AnalystQuestion option" where
  "questionOfSegment rx transcript operatorAnalystInfo seg =
     (case title seg of
        None \<Rightarrow> Inl TypeError
      | Some speakerTitle \<Rightarrow>
          if isAnalystTitle speakerTitle then
            (case content seg of
               None \<Rightarrow> Inl TypeError
             | Some text \<Rightarrow>
                 if hasQuestion rx text then
                   (case speaker seg of
                      None \<Rightarrow> Inl TypeError
                    | Some speakerName \<Rightarrow>
                        Inr (Some
                          \<lparr>analystName = trim speakerName,
                           analystTitle = trim speakerTitle,
                           analystCompany =
                             (case operatorAnalystInfo speakerName of
                                Some company \<Rightarrow> normalizeCompanyName company
                              | None \<Rightarrow> extractCompany rx speakerTitle),
                           question = trim text,
                           transcriptId = trId transcript,
                           symbol = trSymbol transcript,
                           quarter = trQuarter transcript,
                           year = trYear transcript,
                           transcriptTitle = trTitle transcript\<rparr>))
                 else Inr None)
          else Inr None)"

fun questionsLoop ::
    "regexps \<Rightarrow> Transcript \<Rightarrow> (string \<rightharpoonup> string) \<Rightarrow> element list \<Rightarrow> AnalystQuestion list
       \<Rightarrow> jsError + AnalystQuestion list" where
  "questionsLoop rx transcript info [] questions = Inr questions"
| "questionsLoop rx transcript info (e # es) questions =
     (case readProps e of
        Inl err \<Rightarrow> Inl err
      | Inr seg \<Rightarrow>
          (case questionOfSegment rx transcript info seg of
             Inl err \<Rightarrow> Inl err
           | Inr None \<Rightarrow> questionsLoop rx transcript info es questions
           | Inr (Some q) \<Rightarrow> questionsLoop rx transcript info es (questions @ [q])))"

definition extractAnalystQuestionsFromSingleTranscript ::
    "(string \<Rightarrow> json option) \<Rightarrow> regexps \<Rightarrow> Transcript \<Rightarrow> (string \<rightharpoonup> string)
       \<Rightarrow> jsError + AnalystQuestion list" where
  "extractAnalystQuestionsFromSingleTranscript parse rx transcript operatorAnalystInfo =
     (case segmentsOf parse rx (trContent transcript) of
        NotIterable \<Rightarrow> Inl TypeError
      | Array segments \<Rightarrow> questionsLoop rx transcript operatorAnalystInfo segments [])"

text \<open>The records a caller collects are fresh objects: the heap that holds the records of
  a list at the references \<open>0, 1, ...\<close>.\<close>

definition blankQuestion :: AnalystQuestion where
  "blankQuestion =
     \<lparr>analystName = [], analystTitle = [], analystCompany = [], question = [],
      transcriptId = 0, symbol = [], quarter = [], year = 0, transcriptTitle = []\<rparr>"

definition heapOf :: "AnalystQuestion list \<Rightarrow> heap" where
  "heapOf rs = (\<lambda>q. if q < length rs then rs ! q else blankQuestion)"

fun operatorInfoPass ::
    "(string \<Rightarrow> json option) \<Rightarrow> regexps \<Rightarrow> Transcript list \<Rightarrow> (string \<rightharpoonup> string)
       \<Rightarrow> jsError + (string \<rightharpoonup> string)" where
  "operatorInfoPass parse rx [] globalInfo = Inr globalInfo"
| "operatorInfoPass parse rx (t # ts) globalInfo =
     (case extractOperatorAnalystInfo parse rx t of
        Inl err \<Rightarrow> Inl err
      | Inr operatorInfo \<Rightarrow> operatorInfoPass parse rx ts (globalInfo ++ operatorInfo))"

fun questionsPass ::
    "(string \<Rightarrow> json option) \<Rightarrow> regexps \<Rightarrow> (string \<rightharpoonup> string) \<Rightarrow> Transcript list
       \<Rightarrow> AnalystQuestion list \<Rightarrow> jsError + AnalystQuestion list" where
  "questionsPass parse rx info [] allQuestions = Inr allQuestions"
| "questionsPass parse rx info (t # ts) allQuestions =
     (case extractAnalystQuestionsFromSingleTranscript parse rx t info of
        Inl err \<Rightarrow> Inl err
      | Inr questions \<Rightarrow> questionsPass parse rx info ts (allQuestions @ questions))"

definition extractAnalystQuestionsFromMultipleTranscripts ::
    "(string \<Rightarrow> json option) \<Rightarrow> regexps \<Rightarrow> Transcript list \<Rightarrow> jsError + AnalystQuestion list" where
  "extractAnalystQuestionsFromMultipleTranscripts parse rx transcripts =
     (case operatorInfoPass parse rx transcripts Map.empty of
        Inl err \<Rightarrow> Inl err
      | Inr globalOperatorAnalystInfo \<Rightarrow>
          (case questionsPass parse rx globalOperatorAnalystInfo transcripts [] of
             Inl err \<Rightarrow> Inl err
           | Inr allQuestions \<Rightarrow>
               (case applyCompanyWideAnalystConsolidation (heapOf allQuestions)
                       [0..<length allQuestions] globalOperatorAnalystInfo of
                  (h, consolidatedQuestions) \<Rightarrow> Inr (map h consolidatedQuestions))))"

section \<open>Prepared statements\<close>

record PreparedStatement =
  speakerName :: string
  speakerTitle :: string
  statement :: string
  stmtTranscriptId :: int
  stmtSymbol :: string
  stmtQuarter :: string
  stmtYear :: int
  stmtTranscriptTitle :: string

text \<open>The condition under which the loop over \<open>speakers\<close> sets \<open>qaStartIndex = i\<close> and
  breaks.\<close>

definition startsQA :: "nat \<Rightarrow> segment \<Rightarrow> bool" where
  "startsQA i spk =
     (let ttl = toLowerCase (orEmpty (title spk));
          text = toLowerCase (orEmpty (content spk));
          isOperator = includesStr ttl ''operator'';
          isAnalyst = includesStr ttl ''analyst''
      in isAnalyst \<or>
         (isOperator \<and> i > 0 \<and>
          (includesStr text ''question'' \<or> includesStr text ''next question'' \<or>
           includesStr text ''first question'' \<or> includesStr text ''our next caller'')))"

fun qaScan :: "nat \<Rightarrow> element list \<Rightarrow> jsError + nat option" where
  "qaScan i [] = Inr None"
| "qaScan i (e # es) =
     (case readProps e of
        Inl err \<Rightarrow> Inl err
      | Inr spk \<Rightarrow> if startsQA i spk then Inr (Some i) else qaScan (Suc i) es)"

definition qaStartIndex :: "element list \<Rightarrow> jsError + nat" where
  "qaStartIndex speakers =
     (case qaScan 0 speakers of
        Inl err \<Rightarrow> Inl err
      | Inr None \<Rightarrow> Inr (length speakers)
      | Inr (Some i) \<Rightarrow> Inr i)"

definition executiveTitles :: "string list" where
  "executiveTitles =
     [''CEO'', ''CFO'', ''COO'', ''CTO'', ''CRO'', ''CMO'', ''Chief Executive Officer'',
      ''Chief Financial Officer'', ''Chief Operating Officer'', ''Chief Technology Officer'',
      ''President'', ''Vice President'', ''VP'', ''Senior Vice President'', ''SVP'',
      ''Executive Vice President'', ''EVP'', ''Vice-Chairman'', ''Vice Chairman'',
      ''Chairman'', ''Founder'', ''Co-Founder'', ''Managing Director'', ''Director'']"

definition isExecutive :: "string \<Rightarrow> bool" where
  "isExecutive ttl =
     list_ex (\<lambda>execTitle. includesStr (toLowerCase ttl) (toLowerCase execTitle)) executiveTitles"

definition isInvestorRelations :: "string \<Rightarrow> bool" where
  "isInvestorRelations ttl =
     (includesStr (toLowerCase ttl) ''investor relations'' \<or>
      includesStr (toLowerCase ttl) ''head of investor relations'' \<or>
      includesStr (toLowerCase ttl) ''director of investor relations'' \<or>
      includesStr (toLowerCase ttl) ''vp investor relations'' \<or>
      includesStr (toLowerCase ttl) ''vice president investor relations'')"

text \<open>The body of \<open>preparedStatementSpeakers.forEach\<close>: the record the turn gives, if any.\<close>

definition preparedStatementOf :: "Transcript \<Rightarrow> segment \<Rightarrow> PreparedStatement option" where
  "preparedStatementOf transcript spk =
     (let ttl = orEmpty (title spk);
          isAnalyst = includesStr (toLowerCase ttl) ''analyst'';
          isOperator = includesStr (toLowerCase ttl) ''operator''
      in if isExecutive ttl \<and> \<not> isAnalyst \<and> \<not> isOperator \<and> \<not> isInvestorRelations ttl \<and>
            orEmpty (content spk) \<noteq> [] \<and> length (trim (orEmpty (content spk))) > 100
         then Some \<lparr>speakerName = (if orEmpty (speaker spk) = [] then ''Unknown'' else orEmpty (speaker spk)),
                    speakerTitle = ttl,
                    statement = trim (orEmpty (content spk)),
                    stmtTranscriptId = trId transcript,
                    stmtSymbol = trSymbol transcript,
                    stmtQuarter = trQuarter transcript,
                    stmtYear = trYear transcript,
                    stmtTranscriptTitle = trTitle transcript\<rparr>
         else None)"

text \<open>The \<open>forEach\<close> runs inside the function's \<open>try\<close>: an exception ends it, and the
  \<open>catch\<close> returns the statements pushed so far.\<close>

fun collectStatements :: "Transcript \<Rightarrow> element list \<Rightarrow> PreparedStatement list \<Rightarrow> PreparedStatement list" where
  "collectStatements transcript [] statements = statements"
| "collectStatements transcript (e # es) statements =
     (case readProps e of
        Inl err \<Rightarrow> statements
      | Inr spk \<Rightarrow>
          collectStatements transcript es
            (case preparedStatementOf transcript spk of
               None \<Rightarrow> statements
             | Some st \<Rightarrow> statements @ [st]))"

text \<open>The JSON branch: a parse failure, a value that is no array, or a \<open>null\<close> among the
  first three elements (read by the logging of \<open>speakers.slice(0, 3)\<close>) returns the empty
  list from the inner \<open>catch\<close>.\<close>

definition jsonSpeakers :: "(string \<Rightarrow> json option) \<Rightarrow> string \<Rightarrow> element list option" where
  "jsonSpeakers parse text =
     (case parse text of
        None \<Rightarrow> None
      | Some NotIterable \<Rightarrow> None
      | Some (Array speakers) \<Rightarrow> if Null \<in> set (take 3 speakers) then None else Some speakers)"

definition textSpeakers :: "regexps \<Rightarrow> string \<Rightarrow> element list" where
  "textSpeakers rx text =
     concat (map (\<lambda>line. case speakerLine rx line of
                           None \<Rightarrow> []
                         | Some (s, t, c) \<Rightarrow>
                             [Object \<lparr>speaker = Some (trim s), title = Some (trim t), content = Some (trim c)\<rparr>])
                 (splitParagraphs text))"

text \<open>The turns of a transcript: the JSON branch for content that starts, once trimmed,
  with a bracket or a brace, and the text branch otherwise.\<close>

definition speakersOf :: "(string \<Rightarrow> json option) \<Rightarrow> regexps \<Rightarrow> Transcript \<Rightarrow> element list option" where
  "speakersOf parse rx transcript =
     (if startsWith (trim (trContent transcript)) ''['' \<or>
         startsWith (trim (trContent transcript)) ''{''
      then jsonSpeakers parse (trContent transcript)
      else Some (textSpeakers rx (trContent transcript)))"

definition extractPreparedStatements ::
    "(string \<Rightarrow> json option) \<Rightarrow> regexps \<Rightarrow> Transcript \<Rightarrow> PreparedStatement list" where
  "extractPreparedStatements parse rx transcript =
     (case speakersOf parse rx transcript of
        None \<Rightarrow> []
      | Some speakers \<Rightarrow>
          (case qaStartIndex speakers of
             Inl err \<Rightarrow> []
           | Inr qa \<Rightarrow> collectStatements transcript (take qa speakers) []))"

section \<open>Auxiliary notions used in the proofs\<close>

text \<open>The groups a loop of \<open>pushToGroup\<close> builds for a key function.\<close>

definition groupsBy :: "(ref \<Rightarrow> 'k) \<Rightarrow> ref list \<Rightarrow> ('k \<times> ref list) list" where
  "groupsBy f xs = foldl (\<lambda>g q. pushToGroup (f q) q g) [] xs"

text \<open>What the transcript-local phase does to one record, and the order in which that
  phase hands the records on.\<close>

definition operatorAssigned :: "(string \<rightharpoonup> string) \<Rightarrow> AnalystQuestion \<Rightarrow> AnalystQuestion" where
  "operatorAssigned info r =
     (case info (trim (analystName r)) of
        None \<Rightarrow> r
      | Some c \<Rightarrow> r\<lparr>analystCompany := normalizeCompanyName c\<rparr>)"

definition processedOrder :: "heap \<Rightarrow> ref list \<Rightarrow> ref list" where
  "processedOrder h questions = concat (map snd (transcriptGroups h questions))"

definition phase1Heap :: "(string \<rightharpoonup> string) \<Rightarrow> heap \<Rightarrow> ref list \<Rightarrow> heap" where
  "phase1Heap info h qs = fst (applyTranscriptAssignments info h qs)"

text \<open>The key of a record's identity group, the members of the group of a question, the
  \<open>knownCompany\<close> a list of entries leaves in its group, and what the company-wide phase
  does to one record of a group.\<close>

definition canonicalName :: "AnalystQuestion \<Rightarrow> string" where
  "canonicalName r = normalizeAnalystName (trim (analystName r))"

definition identityMembers :: "heap \<Rightarrow> ref list \<Rightarrow> ref \<Rightarrow> ref list" where
  "identityMembers h ps q =
     filter (\<lambda>p. symbol (h p) = symbol (h q) \<and> canonicalName (h p) = canonicalName (h q)) ps"

definition lastKnown :: "heap \<Rightarrow> ref list \<Rightarrow> string" where
  "lastKnown h es =
     foldl (\<lambda>k e. if analystCompany (h e) \<noteq> ''Unknown'' then analystCompany (h e) else k) [] es"

definition consolidated :: "string \<Rightarrow> string \<Rightarrow> AnalystQuestion \<Rightarrow> AnalystQuestion" where
  "consolidated nn known r =
     r\<lparr>analystName := nn, analystCompany := (if known \<noteq> [] then known else analystCompany r)\<rparr>"

definition symbolResult :: "heap \<Rightarrow> ref list \<Rightarrow> ref \<Rightarrow> AnalystQuestion" where
  "symbolResult h sq q =
     consolidated (canonicalName (h q))
       (lastKnown h (filter (\<lambda>p. canonicalName (h p) = canonicalName (h q)) sq)) (h q)"

text \<open>The invariant of the loop that builds the name groups of one symbol.\<close>

definition groupsInv :: "heap \<Rightarrow> ref list \<Rightarrow> (string \<times> analystGroup) list \<Rightarrow> bool" where
  "groupsInv h sq G \<longleftrightarrow>
     distinct (map fst G) \<and>
     fst ` set G = (\<lambda>q. canonicalName (h q)) ` set sq \<and>
     (\<forall>(k, g)\<in>set G. entries g = filter (\<lambda>q. canonicalName (h q) = k) sq \<and>
                       knownCompany g = lastKnown h (entries g))"

definition noSpace :: "string \<Rightarrow> bool" where
  "noSpace s \<longleftrightarrow> (\<forall>c\<in>set s. \<not> is_space c)"

section \<open>Sample records\<close>

text \<open>Concrete records on which the theorems below are instantiated.\<close>

definition sampleQuestion :: "string \<Rightarrow> string \<Rightarrow> int \<Rightarrow> string \<Rightarrow> AnalystQuestion" where
  "sampleQuestion name company tid sy =
     \<lparr>analystName = name, analystTitle = ''Analyst'', analystCompany = company,
      question = ''Can you comment on margins?'', transcriptId = tid, symbol = sy,
      quarter = ''Q1'', year = 2024, transcriptTitle = ''Earnings Call''\<rparr>"

text \<open>A regular-expression engine that matches nothing, for inputs on which no regular
  expression of the source is run.\<close>

definition noMatch :: regexps where
  "noMatch =
     \<lparr>speakerLine = (\<lambda>line. None), operatorPatterns = [], lineOf = (\<lambda>s. s),
      fillers = (\<lambda>s. s), questionWords = (\<lambda>s. False), titlePatterns = [],
      roleWords = (\<lambda>s. s)\<rparr>"

definition sampleTranscript :: "int \<Rightarrow> string \<Rightarrow> Transcript" where
  "sampleTranscript tid text =
     \<lparr>trId = tid, trSymbol = ''MSFT'', trQuarter = ''Q1'', trYear = 2024,
      trTitle = ''Earnings Call'', trContent = text\<rparr>"

definition sampleTurn :: "string \<Rightarrow> string \<Rightarrow> string \<Rightarrow> element" where
  "sampleTurn who role text = Object \<lparr>speaker = Some who, title = Some role, content = Some text\<rparr>"

text \<open>What \<open>JSON.parse\<close> gives on two sample contents, an object and an empty array.
  Other contents are taken as not JSON.\<close>

definition sampleParse :: "string \<Rightarrow> json option" where
  "sampleParse text =
     (if text = ''{}'' then Some NotIterable
      else if text = ''[]'' then Some (Array [])
      else None)"

text \<open>The matches of the four operator patterns on the introduction
  \<open>Keith Weiss with Morgan Stanley.\<close>: only the second pattern, \<open>name with company\<close>,
  matches, once; the text holds none of the filler phrases the clean-up removes.\<close>

definition introductionMatches :: regexps where
  "introductionMatches =
     noMatch\<lparr>operatorPatterns :=
       [\<lambda>text. [],
        \<lambda>text. if text = ''Keith Weiss with Morgan Stanley.''
               then [(''Keith Weiss'', ''Morgan Stanley'')] else [],
        \<lambda>text. [],
        \<lambda>text. []]\<rparr>"

text \<open>A prepared remark of more than 100 characters.\<close>

definition sampleRemarks :: string where
  "sampleRemarks =
     ''Thank you, and good afternoon everyone. We delivered a strong start to the fiscal year, with revenue growth across every segment of the business.''"

section \<open>Lemmas about strings and name normalisation\<close>

lemma of_char_lower:
  "(of_char (lower_char c) :: nat) =
     (if 65 \<le> (of_char c :: nat) \<and> (of_char c :: nat) \<le> 90 then of_char c + 32 else of_char c)"
  unfolding lower_char_def Let_def by simp

lemma of_char_upper:
  "(of_char (upper_char c) :: nat) =
     (if 97 \<le> (of_char c :: nat) \<and> (of_char c :: nat) \<le> 122 then of_char c - 32 else of_char c)"
  unfolding upper_char_def Let_def by (simp add: mod_if) arith

lemma char_eq_nat: "(c = d) = ((of_char c :: nat) = of_char d)"
  by simp

lemma lower_upper [simp]: "lower_char (upper_char c) = lower_char c"
  by (simp add: char_eq_nat of_char_lower of_char_upper) arith

lemma lower_lower [simp]: "lower_char (lower_char c) = lower_char c"
  by (simp add: char_eq_nat of_char_lower of_char_upper)

lemma space_lower [simp]: "is_space (lower_char c) = is_space c"
  by (auto simp add: is_space_def Let_def of_char_lower)

lemma space_upper [simp]: "is_space (upper_char c) = is_space c"
  by (auto simp add: is_space_def Let_def of_char_upper)

lemma toLowerCase_idem [simp]: "toLowerCase (toLowerCase s) = toLowerCase s"
  by (simp add: toLowerCase_def)

lemma toLowerCase_capitalize [simp]: "toLowerCase (capitalize s) = toLowerCase s"
  by (cases s) (simp_all add: toLowerCase_def)

lemma toLowerCase_Nil [simp]: "toLowerCase s = [] \<longleftrightarrow> s = []"
  by (simp add: toLowerCase_def)

lemma capitalize_Nil [simp]: "capitalize s = [] \<longleftrightarrow> s = []"
  by (cases s) simp_all

lemma noSpace_simps [simp]:
  "noSpace []" "noSpace (c # cs) \<longleftrightarrow> \<not> is_space c \<and> noSpace cs"
  by (simp_all add: noSpace_def)

lemma noSpace_toLowerCase [simp]: "noSpace (toLowerCase s) = noSpace s"
  by (induction s) (simp_all add: toLowerCase_def)

lemma noSpace_capitalize [simp]: "noSpace (capitalize s) = noSpace s"
  by (cases s) simp_all

lemma splitWs_Nil: "splitWs [] = [[]]"
  by simp

lemma splitWs_space_end: "is_space c \<Longrightarrow> splitWs [c] = [[], []]"
  by simp

lemma splitWs_space_Cons:
  "is_space c \<Longrightarrow> splitWs (c # d # ds) = (if is_space d then splitWs (d # ds) else [] # splitWs (d # ds))"
  by (subst splitWs.simps) (simp del: splitWs.simps)

lemma splitWs_not_Nil [simp]: "splitWs s \<noteq> []"
proof (induction s)
  case Nil
  show ?case by simp
next
  case (Cons c cs)
  show ?case
  proof (cases "is_space c")
    case True
    show ?thesis
    proof (cases cs)
      case Nil
      then show ?thesis using True by (simp add: splitWs_space_end del: splitWs.simps)
    next
      case (Cons d ds)
      then show ?thesis using True Cons.IH
        by (simp add: splitWs_space_Cons del: splitWs.simps)
    qed
  next
    case False
    then show ?thesis
      by (subst splitWs.simps) (simp del: splitWs.simps split: list.split)
  qed
qed

lemma splitWs_char_Cons:
  "\<not> is_space c \<Longrightarrow> splitWs (c # cs) = (c # hd (splitWs cs)) # tl (splitWs cs)"
proof -
  assume c: "\<not> is_space c"
  obtain t ts where sp: "splitWs cs = t # ts" by (cases "splitWs cs") simp_all
  show ?thesis
    by (subst splitWs.simps) (simp add: c sp del: splitWs.simps)
qed

lemma splitWs_noSpace: "noSpace s \<Longrightarrow> splitWs s = [s]"
  by (induction s) (simp_all add: splitWs_char_Cons del: splitWs.simps(2))

lemma splitWs_tokens: "t \<in> set (splitWs s) \<Longrightarrow> noSpace t"
proof (induction s arbitrary: t)
  case Nil
  then show ?case by simp
next
  case (Cons c cs)
  show ?case
  proof (cases "is_space c")
    case True
    show ?thesis
    proof (cases cs)
      case Nil
      then show ?thesis using True Cons.prems by (simp add: splitWs_space_end del: splitWs.simps)
    next
      case (Cons d ds)
      then have "t = [] \<or> t \<in> set (splitWs cs)"
        using True Cons.prems by (simp add: splitWs_space_Cons del: splitWs.simps split: if_splits)
      then show ?thesis using Cons.IH by auto
    qed
  next
    case False
    have ne: "splitWs cs \<noteq> []" by simp
    from Cons.prems have "t = c # hd (splitWs cs) \<or> t \<in> set (tl (splitWs cs))"
      by (simp add: splitWs_char_Cons [OF False] del: splitWs.simps)
    moreover have "hd (splitWs cs) \<in> set (splitWs cs)" using ne by (rule hd_in_set)
    moreover have "set (tl (splitWs cs)) \<subseteq> set (splitWs cs)" by (cases "splitWs cs") (auto simp del: splitWs.simps)
    ultimately show ?thesis using Cons.IH False by auto
  qed
qed

lemma splitWs_hd: "s \<noteq> [] \<Longrightarrow> \<not> is_space (hd s) \<Longrightarrow> hd (splitWs s) \<noteq> []"
  by (cases s) (simp_all add: splitWs_char_Cons del: splitWs.simps)

lemma splitWs_last: "s \<noteq> [] \<Longrightarrow> \<not> is_space (last s) \<Longrightarrow> last (splitWs s) \<noteq> []"
proof (induction s)
  case Nil
  then show ?case by simp
next
  case (Cons c cs)
  show ?case
  proof (cases "is_space c")
    case True
    then obtain d ds where cs: "cs = d # ds" using Cons.prems by (cases cs) auto
    have "\<not> is_space (last cs)" using Cons.prems cs by simp
    then have "last (splitWs cs) \<noteq> []" using Cons.IH cs by simp
    then show ?thesis
      using True by (simp add: cs splitWs_space_Cons del: splitWs.simps)
  next
    case False
    show ?thesis
    proof (cases "tl (splitWs cs) = []")
      case True
      then show ?thesis by (simp add: splitWs_char_Cons [OF False] del: splitWs.simps)
    next
      case nonempty: False
      have ne: "cs \<noteq> []" using nonempty by auto
      then have "\<not> is_space (last cs)" using Cons.prems by simp
      then have l: "last (splitWs cs) \<noteq> []" using Cons.IH ne by blast
      have "last (tl (splitWs cs)) = last (splitWs cs)"
        using nonempty by (cases "splitWs cs") (simp_all del: splitWs.simps)
      then show ?thesis
        using l nonempty by (simp add: splitWs_char_Cons [OF False] del: splitWs.simps)
    qed
  qed
qed

lemma splitWs_two:
  "noSpace a \<Longrightarrow> is_space c \<Longrightarrow> b \<noteq> [] \<Longrightarrow> \<not> is_space (hd b) \<Longrightarrow>
   splitWs (a @ c # b) = a # splitWs b"
proof (induction a)
  case Nil
  then obtain d ds where "b = d # ds" "\<not> is_space d" by (cases b) auto
  then show ?case using Nil by (simp add: splitWs_space_Cons del: splitWs.simps)
next
  case (Cons x a)
  then show ?case by (simp add: splitWs_char_Cons del: splitWs.simps)
qed

lemma last_dropWhile: "dropWhile P xs \<noteq> [] \<Longrightarrow> last (dropWhile P xs) = last xs"
  by (induction xs) (auto split: if_splits)

lemma trim_ends:
  assumes "trim s \<noteq> []"
  shows "\<not> is_space (hd (trim s))" and "\<not> is_space (last (trim s))"
proof -
  define d where "d = dropWhile is_space s"
  define e where "e = dropWhile is_space (rev d)"
  have t: "trim s = rev e" by (simp add: trim_def d_def e_def)
  with assms have e: "e \<noteq> []" by simp
  then have "\<not> is_space (hd e)" unfolding e_def by (rule hd_dropWhile)
  then show "\<not> is_space (last (trim s))" using e by (simp add: t last_rev)
  have "d \<noteq> []" using e by (auto simp add: e_def)
  then have hd: "\<not> is_space (hd d)" unfolding d_def by (rule hd_dropWhile)
  have "last e = last (rev d)" using e unfolding e_def by (rule last_dropWhile)
  then have "last e = hd d" using \<open>d \<noteq> []\<close> by (simp add: last_rev)
  then show "\<not> is_space (hd (trim s))" using e hd by (simp add: t hd_rev)
qed

lemma dropWhile_id: "xs = [] \<or> \<not> P (hd xs) \<Longrightarrow> dropWhile P xs = xs"
  by (cases xs) auto

lemma trim_id:
  assumes "s = [] \<or> (\<not> is_space (hd s) \<and> \<not> is_space (last s))"
  shows "trim s = s"
proof -
  have a: "dropWhile is_space s = s" using assms by (intro dropWhile_id) auto
  have "rev s = [] \<or> \<not> is_space (hd (rev s))" using assms by (auto simp add: hd_rev)
  then have "dropWhile is_space (rev s) = rev s" by (rule dropWhile_id)
  then show ?thesis by (simp add: trim_def a)
qed

lemma trim_trim [simp]: "trim (trim s) = trim s"
proof (cases "trim s = []")
  case True
  have "trim [] = []" by (simp add: trim_def)
  then show ?thesis using True by simp
next
  case False
  then show ?thesis using trim_ends [OF False] by (intro trim_id) simp
qed

lemma firstNameOf_eq: "firstNameOf x = toLowerCase (hd (splitWs (trim x)))"
  by (cases "splitWs (trim x)") (simp_all add: firstNameOf_def del: splitWs.simps)

lemma lastNameOf_eq: "lastNameOf x = toLowerCase (last (splitWs (trim x)))"
proof -
  have "rev (splitWs (trim x)) \<noteq> []" by simp
  then obtain p ps where r: "rev (splitWs (trim x)) = p # ps" by (cases "rev (splitWs (trim x))") auto
  then have "last (splitWs (trim x)) = p" by (metis last_rev list.sel(1) hd_rev rev_rev_ident)
  then show ?thesis by (simp add: lastNameOf_def r del: splitWs.simps)
qed

lemma names_of_blank:
  assumes "trim x = []"
  shows "firstNameOf x = []" and "lastNameOf x = []"
  using assms by (simp_all add: firstNameOf_eq lastNameOf_eq)

lemma firstNameOf_props:
  assumes "trim x \<noteq> []"
  shows "firstNameOf x \<noteq> []" and "noSpace (firstNameOf x)" and "toLowerCase (firstNameOf x) = firstNameOf x"
proof -
  show "firstNameOf x \<noteq> []"
    using splitWs_hd [OF assms] trim_ends(1) [OF assms] by (simp add: firstNameOf_eq del: splitWs.simps)
  have "hd (splitWs (trim x)) \<in> set (splitWs (trim x))" by (rule hd_in_set) simp
  then have "noSpace (hd (splitWs (trim x)))" by (rule splitWs_tokens)
  then show "noSpace (firstNameOf x)" by (simp add: firstNameOf_eq del: splitWs.simps)
  show "toLowerCase (firstNameOf x) = firstNameOf x" by (simp add: firstNameOf_eq del: splitWs.simps)
qed

lemma lastNameOf_props:
  assumes "trim x \<noteq> []"
  shows "lastNameOf x \<noteq> []" and "noSpace (lastNameOf x)" and "toLowerCase (lastNameOf x) = lastNameOf x"
proof -
  show "lastNameOf x \<noteq> []"
    using splitWs_last [OF assms] trim_ends(2) [OF assms] by (simp add: lastNameOf_eq del: splitWs.simps)
  have "last (splitWs (trim x)) \<in> set (splitWs (trim x))" by (rule last_in_set) simp
  then have "noSpace (last (splitWs (trim x)))" by (rule splitWs_tokens)
  then show "noSpace (lastNameOf x)" by (simp add: lastNameOf_eq del: splitWs.simps)
  show "toLowerCase (lastNameOf x) = lastNameOf x" by (simp add: lastNameOf_eq del: splitWs.simps)
qed

lemma nameVariations_table:
  "\<forall>kv\<in>set nameVariations.
     map_of nameVariations (snd kv) = None \<and> toLowerCase (snd kv) = snd kv \<and>
     noSpace (snd kv) \<and> snd kv \<noteq> []"
  by code_simp

lemma normalizedFirstName_all:
  assumes "f \<noteq> []" "noSpace f" "toLowerCase f = f"
  shows "normalizedFirstName f \<noteq> [] \<and> noSpace (normalizedFirstName f) \<and>
      toLowerCase (normalizedFirstName f) = normalizedFirstName f \<and>
      normalizedFirstName (normalizedFirstName f) = normalizedFirstName f"
proof (cases "map_of nameVariations f")
  case None
  then show ?thesis using assms by (simp add: normalizedFirstName_def)
next
  case (Some v)
  then have "(f, v) \<in> set nameVariations" by (rule map_of_SomeD)
  then have "map_of nameVariations v = None \<and> toLowerCase v = v \<and> noSpace v \<and> v \<noteq> []"
    using nameVariations_table by force
  then show ?thesis using Some by (simp add: normalizedFirstName_def)
qed

lemma normalizedFirstName_props:
  assumes "f \<noteq> []" "noSpace f" "toLowerCase f = f"
  shows "normalizedFirstName f \<noteq> []" and "noSpace (normalizedFirstName f)"
    and "toLowerCase (normalizedFirstName f) = normalizedFirstName f"
    and "normalizedFirstName (normalizedFirstName f) = normalizedFirstName f"
  using normalizedFirstName_all [OF assms] by simp_all

lemma normalize_blank: "normalizeAnalystName '' '' = '' ''"
  by code_simp

lemma normalizedFirstName_Nil: "normalizedFirstName [] = []"
  by code_simp

lemma normalizeAnalystName_trim [simp]: "normalizeAnalystName (trim s) = normalizeAnalystName s"
  by (simp add: normalizeAnalystName_def firstNameOf_def lastNameOf_def)

lemma normalizeAnalystName_idem [simp]:
  "normalizeAnalystName (normalizeAnalystName x) = normalizeAnalystName x"
proof (cases "trim x = []")
  case True
  then have "normalizeAnalystName x = '' ''"
    by (simp add: normalizeAnalystName_def names_of_blank normalizedFirstName_Nil)
  then show ?thesis by (simp add: normalize_blank)
next
  case False
  define f where "f = firstNameOf x"
  define l where "l = lastNameOf x"
  define nf where "nf = normalizedFirstName f"
  define A where "A = capitalize nf"
  define B where "B = capitalize l"
  have f: "f \<noteq> []" "noSpace f" "toLowerCase f = f"
    using firstNameOf_props [OF False] by (simp_all add: f_def)
  have l: "l \<noteq> []" "noSpace l" "toLowerCase l = l"
    using lastNameOf_props [OF False] by (simp_all add: l_def)
  have nf: "nf \<noteq> []" "noSpace nf" "toLowerCase nf = nf" "normalizedFirstName nf = nf"
    using normalizedFirstName_props [OF f] by (simp_all add: nf_def)
  have A: "A \<noteq> []" "noSpace A" "toLowerCase A = nf" using nf by (simp_all add: A_def)
  have B: "B \<noteq> []" "noSpace B" "toLowerCase B = l" using l by (simp_all add: B_def)
  have N: "normalizeAnalystName x = A @ CHR '' '' # B"
    by (simp add: normalizeAnalystName_def A_def B_def nf_def f_def l_def)
  have sp: "is_space CHR '' ''" by (simp add: is_space_def)
  have hdA: "\<not> is_space (hd A)" using A by (cases A) simp_all
  have hdB: "\<not> is_space (hd B)" using B by (cases B) simp_all
  have lastB: "\<not> is_space (last B)" using B by (auto simp add: noSpace_def)
  have "hd (A @ CHR '' '' # B) = hd A" using A by simp
  moreover have "last (A @ CHR '' '' # B) = last B" using B by simp
  ultimately have tr: "trim (A @ CHR '' '' # B) = A @ CHR '' '' # B"
    using hdA lastB by (intro trim_id) simp
  have split: "splitWs (A @ CHR '' '' # B) = [A, B]"
    using splitWs_two [OF A(2) sp B(1) hdB] splitWs_noSpace [OF B(2)] by simp
  have "firstNameOf (A @ CHR '' '' # B) = nf"
    by (simp add: firstNameOf_def tr split A del: splitWs.simps)
  moreover have "lastNameOf (A @ CHR '' '' # B) = l"
    by (simp add: lastNameOf_def tr split B del: splitWs.simps)
  ultimately have "normalizeAnalystName (A @ CHR '' '' # B) = A @ CHR '' '' # B"
    by (simp add: normalizeAnalystName_def nf A_def B_def)
  then show ?thesis by (simp add: N)
qed

section \<open>Lemmas about consolidation\<close>

lemma pushToGroup_keys:
  "map fst (pushToGroup k q g) = (if k \<in> fst ` set g then map fst g else map fst g @ [k])"
  by (induction g) force+

lemma pushToGroup_distinct:
  "distinct (map fst g) \<Longrightarrow> distinct (map fst (pushToGroup k q g))"
  by (simp add: pushToGroup_keys)

lemma pushToGroup_map_of:
  "map_of (pushToGroup k q g) k' =
     (if k' = k then Some ((case map_of g k of None \<Rightarrow> [] | Some qs \<Rightarrow> qs) @ [q])
      else map_of g k')"
  by (induction g) (auto)

lemma groupsBy_snoc: "groupsBy f (xs @ [x]) = pushToGroup (f x) x (groupsBy f xs)"
  by (simp add: groupsBy_def)

lemma groupsBy_distinct: "distinct (map fst (groupsBy f xs))"
  by (induction xs rule: rev_induct) (simp_all add: groupsBy_snoc pushToGroup_distinct, simp add: groupsBy_def)

lemma filter_key_empty: "k \<notin> f ` set xs \<Longrightarrow> filter (\<lambda>x. f x = k) xs = []"
  by (induction xs) auto

lemma groupsBy_map_of:
  "map_of (groupsBy f xs) k =
     (if k \<in> f ` set xs then Some (filter (\<lambda>x. f x = k) xs) else None)"
proof (induction xs arbitrary: k rule: rev_induct)
  case Nil
  show ?case by (simp add: groupsBy_def)
next
  case (snoc x xs)
  show ?case
    by (simp add: groupsBy_snoc pushToGroup_map_of snoc.IH filter_key_empty)
qed

lemma groupsBy_member:
  "(k, vs) \<in> set (groupsBy f xs) \<longleftrightarrow> k \<in> f ` set xs \<and> vs = filter (\<lambda>x. f x = k) xs"
proof -
  have "(k, vs) \<in> set (groupsBy f xs) \<longleftrightarrow> map_of (groupsBy f xs) k = Some vs"
    using groupsBy_distinct [of f xs] by simp
  then show ?thesis by (auto simp add: groupsBy_map_of)
qed

lemma groupsBy_concat_set: "set (concat (map snd (groupsBy f xs))) = set xs"
proof -
  have "set (concat (map snd (groupsBy f xs))) = (\<Union>(k, vs)\<in>set (groupsBy f xs). set vs)"
    by auto
  also have "\<dots> = set xs"
  proof (intro set_eqI iffI)
    fix x assume "x \<in> (\<Union>(k, vs)\<in>set (groupsBy f xs). set vs)"
    then show "x \<in> set xs" by (auto simp add: groupsBy_member)
  next
    fix x assume x: "x \<in> set xs"
    then have "(f x, filter (\<lambda>y. f y = f x) xs) \<in> set (groupsBy f xs)"
      by (simp add: groupsBy_member)
    moreover have "x \<in> set (filter (\<lambda>y. f y = f x) xs)" using x by simp
    ultimately show "x \<in> (\<Union>(k, vs)\<in>set (groupsBy f xs). set vs)" by blast
  qed
  finally show ?thesis .
qed


lemma assignOperatorCompany_eq:
  "assignOperatorCompany info h q = h(q := operatorAssigned info (h q))"
  by (auto simp add: assignOperatorCompany_def operatorAssigned_def Let_def fun_eq_iff split: option.splits)

lemma operatorAssigned_idem [simp]:
  "operatorAssigned info (operatorAssigned info r) = operatorAssigned info r"
  by (simp add: operatorAssigned_def split: option.splits)

lemma foldl_point_update:
  assumes idem: "\<And>r. F (F r) = F r"
  shows "foldl (\<lambda>h e. h(e := F (h e))) h es q = (if q \<in> set es then F (h q) else h q)"
  by (induction es arbitrary: h) (auto simp add: idem)

lemma foldl_push:
  "foldl (\<lambda>(h', out) q. (A h' q, out @ [q])) (h, out) qs = (foldl A h qs, out @ qs)"
  by (induction qs arbitrary: h out) auto

lemma foldl_groups_push:
  "foldl (\<lambda>st (tid, tqs). foldl (\<lambda>(h', out) q. (A h' q, out @ [q])) st tqs) (h, out) G
     = (foldl A h (concat (map snd G)), out @ concat (map snd G))"
  by (induction G arbitrary: h out) (auto simp add: foldl_push)

lemma applyTranscriptAssignments_eq:
  "applyTranscriptAssignments info h qs =
     (foldl (assignOperatorCompany info) h (processedOrder h qs), processedOrder h qs)"
  by (simp add: applyTranscriptAssignments_def processedOrder_def foldl_groups_push)

lemma transcriptGroups_groupsBy: "transcriptGroups h qs = groupsBy (\<lambda>q. transcriptId (h q)) qs"
  by (simp add: transcriptGroups_def groupsBy_def)

lemma symbolGroups_groupsBy: "symbolGroups h qs = groupsBy (\<lambda>q. symbol (h q)) qs"
  by (simp add: symbolGroups_def groupsBy_def)

lemma set_processedOrder [simp]: "set (processedOrder h qs) = set qs"
  by (simp only: processedOrder_def transcriptGroups_groupsBy groupsBy_concat_set)

lemma phase1_heap:
  "fst (applyTranscriptAssignments info h qs) q =
     (if q \<in> set qs then operatorAssigned info (h q) else h q)"
proof -
  have "foldl (assignOperatorCompany info) h ps = foldl (\<lambda>h e. h(e := operatorAssigned info (h e))) h ps" for ps
    by (simp add: assignOperatorCompany_eq [abs_def])
  then show ?thesis
    by (simp add: applyTranscriptAssignments_eq foldl_point_update)
qed

lemma phase1_order: "snd (applyTranscriptAssignments info h qs) = processedOrder h qs"
  by (simp add: applyTranscriptAssignments_eq)

lemma consolidateEntry_eq:
  "consolidateEntry nn known h e = h(e := consolidated nn known (h e))"
  by (auto simp add: consolidateEntry_def consolidated_def Let_def fun_eq_iff)

lemma consolidated_idem [simp]:
  "consolidated nn known (consolidated nn known r) = consolidated nn known r"
  by (simp add: consolidated_def)

lemma consolidate_entries:
  "foldl (consolidateEntry nn known) h es q =
     (if q \<in> set es then consolidated nn known (h q) else h q)"
proof -
  have "foldl (consolidateEntry nn known) h es = foldl (\<lambda>h e. h(e := consolidated nn known (h e))) h es"
    by (simp add: consolidateEntry_eq [abs_def])
  then show ?thesis by (simp add: foldl_point_update)
qed

lemma updateGroup_keys [simp]: "map fst (updateGroup k f G) = map fst G"
  by (induction G) (auto simp add: updateGroup_def)

lemma updateGroup_set:
  "set (updateGroup k f G) = (\<lambda>(k', g). if k' = k then (k', f g) else (k', g)) ` set G"
  by (simp add: updateGroup_def)

lemma lastKnown_snoc:
  "lastKnown h (es @ [e]) =
     (if analystCompany (h e) \<noteq> ''Unknown'' then analystCompany (h e) else lastKnown h es)"
  by (simp add: lastKnown_def)

lemma lastKnown_Nil [simp]: "lastKnown h [] = []"
  by (simp add: lastKnown_def)

lemma map_of_None_keys: "map_of G k = None \<longleftrightarrow> k \<notin> fst ` set G"
  by (simp add: map_of_eq_None_iff)

lemma addQuestionToGroups_inv:
  assumes inv: "groupsInv h sq G"
  shows "groupsInv h (sq @ [q]) (addQuestionToGroups h G q)"
proof -
  define k0 where "k0 = canonicalName (h q)"
  define c where "c = analystCompany (h q)"
  define nm where "nm = trim (analystName (h q))"
  define init where "init = \<lparr>normalizedName = k0, originalNames = [],
      knownCompany = (if c \<noteq> ''Unknown'' then c else []), entries = []\<rparr>"
  define f where "f = (\<lambda>g::analystGroup. g\<lparr>originalNames := (if nm \<in> set (originalNames g) then originalNames g
                                      else originalNames g @ [nm]),
                  knownCompany := (if c \<noteq> ''Unknown'' then c else knownCompany g),
                  entries := entries g @ [q]\<rparr>)"
  define G1 where "G1 = (if map_of G k0 = None then G @ [(k0, init)] else G)"
  have res: "addQuestionToGroups h G q = updateGroup k0 f G1"
    unfolding addQuestionToGroups_def Let_def G1_def f_def init_def nm_def c_def k0_def canonicalName_def
    by (rule refl)
  from inv have dist: "distinct (map fst G)"
    and keys: "fst ` set G = (\<lambda>q. canonicalName (h q)) ` set sq"
    and ents: "\<And>k g. (k, g) \<in> set G \<Longrightarrow> entries g = filter (\<lambda>q. canonicalName (h q) = k) sq \<and>
                       knownCompany g = lastKnown h (entries g)"
    by (auto simp add: groupsInv_def)
  have dist1: "distinct (map fst G1)"
    using dist by (auto simp add: G1_def map_of_None_keys)
  have keys1: "fst ` set G1 = insert k0 (fst ` set G)"
    by (auto simp add: G1_def map_of_None_keys)
  have ents1: "entries g = filter (\<lambda>q. canonicalName (h q) = k) sq \<and>
       (k \<noteq> k0 \<longrightarrow> knownCompany g = lastKnown h (entries g)) \<and>
       (k = k0 \<longrightarrow> (if c \<noteq> ''Unknown'' then c else knownCompany g) = lastKnown h (entries g @ [q]))"
    if "(k, g) \<in> set G1" for k g
  proof (cases "(k, g) \<in> set G")
    case True
    then show ?thesis using ents [OF True] by (simp add: lastKnown_snoc c_def)
  next
    case False
    with that have new: "map_of G k0 = None" "k = k0" "g = init"
      by (auto simp add: G1_def split: if_splits)
    from new(1) have "k0 \<notin> (\<lambda>q. canonicalName (h q)) ` set sq"
      using keys by (simp add: map_of_None_keys)
    then have "filter (\<lambda>q. canonicalName (h q) = k0) sq = []"
      by (rule filter_key_empty)
    then show ?thesis using new by (simp add: init_def lastKnown_def c_def)
  qed
  have "distinct (map fst (updateGroup k0 f G1))" using dist1 by simp
  moreover have "fst ` set (updateGroup k0 f G1) = (\<lambda>q. canonicalName (h q)) ` set (sq @ [q])"
  proof -
    have "fst ` set (updateGroup k0 f G1) = set (map fst (updateGroup k0 f G1))" by (simp only: set_map)
    also have "\<dots> = fst ` set G1" by simp
    finally show ?thesis using keys1 keys by (auto simp add: k0_def)
  qed
  moreover have "entries g' = filter (\<lambda>p. canonicalName (h p) = k) (sq @ [q]) \<and>
                       knownCompany g' = lastKnown h (entries g')"
    if "(k, g') \<in> set (updateGroup k0 f G1)" for k g'
  proof -
    from that obtain g where g: "(k, g) \<in> set G1" and g': "g' = (if k = k0 then f g else g)"
      by (auto simp add: updateGroup_set split: if_splits)
    show ?thesis
      using ents1 [OF g] g' by (auto simp add: f_def k0_def)
  qed
  ultimately show ?thesis
    unfolding res groupsInv_def by blast
qed

lemma analystNameGroups_inv: "groupsInv h sq (analystNameGroups h sq)"
proof (induction sq rule: rev_induct)
  case Nil
  show ?case by (simp add: analystNameGroups_def groupsInv_def)
next
  case (snoc q sq)
  then show ?case
    by (simp add: analystNameGroups_def addQuestionToGroups_inv)
qed

lemma consolidateGroup_simp:
  "consolidateGroup (h, fin) (k, g) =
     (foldl (consolidateEntry k (knownCompany g)) h (entries g), fin @ entries g)"
  by (simp add: consolidateGroup_def)

lemma consolidate_groups:
  assumes "distinct (map fst G)"
    and "\<And>k g e. (k, g) \<in> set G \<Longrightarrow> e \<in> set (entries g) \<Longrightarrow> key e = k"
  shows "fst (foldl consolidateGroup (h, fin) G) q =
     (case map_of G (key q) of
        Some g \<Rightarrow> if q \<in> set (entries g) then consolidated (key q) (knownCompany g) (h q) else h q
      | None \<Rightarrow> h q)"
  using assms
proof (induction G arbitrary: h fin)
  case Nil
  show ?case by simp
next
  case (Cons kg G)
  obtain k g where kg: "kg = (k, g)" by (cases kg)
  define h' where "h' = foldl (consolidateEntry k (knownCompany g)) h (entries g)"
  have h': "h' q = (if q \<in> set (entries g) then consolidated k (knownCompany g) (h q) else h q)"
    by (simp add: h'_def consolidate_entries)
  have dist: "distinct (map fst G)" and knew: "k \<notin> fst ` set G"
    using Cons.prems(1) by (auto simp add: kg)
  have key: "\<And>k g e. (k, g) \<in> set G \<Longrightarrow> e \<in> set (entries g) \<Longrightarrow> key e = k"
    using Cons.prems(2) by auto
  have keyg: "\<And>e. e \<in> set (entries g) \<Longrightarrow> key e = k"
    using Cons.prems(2) [of k g] by (simp add: kg)
  have IH: "fst (foldl consolidateGroup (h', fin @ entries g) G) q =
     (case map_of G (key q) of
        Some g \<Rightarrow> if q \<in> set (entries g) then consolidated (key q) (knownCompany g) (h' q) else h' q
      | None \<Rightarrow> h' q)"
    by (rule Cons.IH [OF dist key])
  have step: "foldl consolidateGroup (h, fin) (kg # G) = foldl consolidateGroup (h', fin @ entries g) G"
    by (simp add: kg consolidateGroup_simp h'_def)
  show ?case
  proof (cases "key q = k")
    case True
    have "map_of G k = None" using knew by (simp add: map_of_eq_None_iff)
    then show ?thesis
      unfolding step IH by (simp add: True kg h')
  next
    case False
    then have "q \<notin> set (entries g)" using keyg by blast
    then have "h' q = h q" by (simp add: h')
    then show ?thesis
      unfolding step IH using False by (simp add: kg split: option.splits)
  qed
qed

lemma consolidate_groups_out:
  "snd (foldl consolidateGroup (h, fin) G) = fin @ concat (map (\<lambda>kg. entries (snd kg)) G)"
  by (induction G arbitrary: h fin) (auto simp add: consolidateGroup_def)

lemma consolidateSymbol_heap:
  "fst (consolidateSymbol (h, fin) (s, sq)) q = (if q \<in> set sq then symbolResult h sq q else h q)"
proof -
  define G where "G = analystNameGroups h sq"
  have inv: "groupsInv h sq G" by (simp add: G_def analystNameGroups_inv)
  then have dist: "distinct (map fst G)"
    and keys: "fst ` set G = (\<lambda>q. canonicalName (h q)) ` set sq"
    and ents: "\<And>k g. (k, g) \<in> set G \<Longrightarrow> entries g = filter (\<lambda>q. canonicalName (h q) = k) sq \<and>
                       knownCompany g = lastKnown h (entries g)"
    by (auto simp add: groupsInv_def)
  have key: "\<And>k g e. (k, g) \<in> set G \<Longrightarrow> e \<in> set (entries g) \<Longrightarrow> canonicalName (h e) = k"
    using ents by auto
  have res: "fst (consolidateSymbol (h, fin) (s, sq)) q =
     (case map_of G (canonicalName (h q)) of
        Some g \<Rightarrow> if q \<in> set (entries g) then consolidated (canonicalName (h q)) (knownCompany g) (h q) else h q
      | None \<Rightarrow> h q)"
    unfolding consolidateSymbol_def
    using consolidate_groups [OF dist key, where h = h and fin = fin and q = q]
    by (simp add: G_def)
  show ?thesis
  proof (cases "q \<in> set sq")
    case True
    then have "canonicalName (h q) \<in> fst ` set G" using keys by blast
    then obtain g where g: "(canonicalName (h q), g) \<in> set G" by auto
    then have m: "map_of G (canonicalName (h q)) = Some g" using dist by simp
    from ents [OF g] True show ?thesis
      unfolding res m by (simp add: symbolResult_def)
  next
    case False
    show ?thesis
    proof (cases "map_of G (canonicalName (h q))")
      case None
      then show ?thesis unfolding res using False by simp
    next
      case (Some g)
      then have "(canonicalName (h q), g) \<in> set G" by (rule map_of_SomeD)
      from ents [OF this] False have "q \<notin> set (entries g)" by simp
      then show ?thesis unfolding res Some using False by simp
    qed
  qed
qed

lemma lastKnown_cong:
  "(\<And>e. e \<in> set es \<Longrightarrow> h e = h1 e) \<Longrightarrow> lastKnown h es = lastKnown h1 es"
  by (induction es rule: rev_induct) (simp_all add: lastKnown_snoc)

lemma symbolResult_cong:
  assumes "\<And>e. e \<in> set sq \<Longrightarrow> h e = h1 e" and "q \<in> set sq"
  shows "symbolResult h sq q = symbolResult h1 sq q"
proof -
  have hq: "h q = h1 q" using assms by simp
  have f: "filter (\<lambda>p. canonicalName (h p) = canonicalName (h q)) sq
         = filter (\<lambda>p. canonicalName (h1 p) = canonicalName (h1 q)) sq"
    using assms(1) hq by (intro filter_cong) auto
  have "lastKnown h (filter (\<lambda>p. canonicalName (h1 p) = canonicalName (h1 q)) sq)
      = lastKnown h1 (filter (\<lambda>p. canonicalName (h1 p) = canonicalName (h1 q)) sq)"
    by (rule lastKnown_cong) (simp add: assms(1))
  then show ?thesis unfolding symbolResult_def f by (simp add: hq)
qed

lemma consolidate_symbols:
  assumes "distinct (map fst SG)"
    and "\<And>s sq q. (s, sq) \<in> set SG \<Longrightarrow> q \<in> set sq \<Longrightarrow> symbol (h1 q) = s"
    and "\<And>s sq q. (s, sq) \<in> set SG \<Longrightarrow> q \<in> set sq \<Longrightarrow> h q = h1 q"
  shows "fst (foldl consolidateSymbol (h, fin) SG) q =
     (case map_of SG (symbol (h1 q)) of
        Some sq \<Rightarrow> if q \<in> set sq then symbolResult h1 sq q else h q
      | None \<Rightarrow> h q)"
  using assms
proof (induction SG arbitrary: h fin)
  case Nil
  show ?case by simp
next
  case (Cons sg SG)
  obtain s sq where sg: "sg = (s, sq)" by (cases sg)
  define st' where "st' = consolidateSymbol (h, fin) (s, sq)"
  define h' where "h' = fst st'"
  have agree: "\<And>e. e \<in> set sq \<Longrightarrow> h e = h1 e"
    using Cons.prems(3) [of s sq] by (simp add: sg)
  have sr: "symbolResult h sq q = symbolResult h1 sq q" if "q \<in> set sq" for q
    using agree that by (intro symbolResult_cong)
  have h': "h' q = (if q \<in> set sq then symbolResult h1 sq q else h q)" for q
    using sr [of q]
    by (simp add: h'_def st'_def consolidateSymbol_heap)
  have dist: "distinct (map fst SG)" and snew: "s \<notin> fst ` set SG"
    using Cons.prems(1) by (auto simp add: sg)
  have sym: "\<And>s sq q. (s, sq) \<in> set SG \<Longrightarrow> q \<in> set sq \<Longrightarrow> symbol (h1 q) = s"
    using Cons.prems(2) by auto
  have symsq: "\<And>e. e \<in> set sq \<Longrightarrow> symbol (h1 e) = s"
    using Cons.prems(2) [of s sq] by (simp add: sg)
  have agree': "h' e = h1 e" if "(s', sq') \<in> set SG" "e \<in> set sq'" for s' sq' e
  proof -
    have "symbol (h1 e) = s'" using sym that by blast
    moreover have "s' \<noteq> s" using that(1) snew by force
    ultimately have "e \<notin> set sq" using symsq by blast
    then have "h' e = h e" by (simp add: h')
    also have "h e = h1 e" using Cons.prems(3) [of s' sq' e] that by simp
    finally show ?thesis .
  qed
  have IH: "fst (foldl consolidateSymbol (h', snd st') SG) q =
     (case map_of SG (symbol (h1 q)) of
        Some sq \<Rightarrow> if q \<in> set sq then symbolResult h1 sq q else h' q
      | None \<Rightarrow> h' q)"
    by (rule Cons.IH [OF dist sym agree'])
  have step: "foldl consolidateSymbol (h, fin) (sg # SG) = foldl consolidateSymbol (h', snd st') SG"
    by (simp add: sg st'_def h'_def)
  show ?case
  proof (cases "symbol (h1 q) = s")
    case True
    have "map_of SG s = None" using snew by (simp add: map_of_eq_None_iff)
    then show ?thesis
      unfolding step IH by (simp add: True sg h')
  next
    case False
    then have "q \<notin> set sq" using symsq by blast
    then have "h' q = h q" by (simp add: h')
    then show ?thesis
      unfolding step IH using False by (simp add: sg split: option.splits)
  qed
qed

lemma consolidation_heap:
  "fst (applyCompanyWideAnalystConsolidation h qs info) q =
     (if q \<in> set qs
      then consolidated (canonicalName (phase1Heap info h qs q))
             (lastKnown (phase1Heap info h qs)
                (identityMembers (phase1Heap info h qs) (processedOrder h qs) q))
             (phase1Heap info h qs q)
      else h q)"
proof -
  define h1 where "h1 = phase1Heap info h qs"
  define ps where "ps = processedOrder h qs"
  define SG where "SG = symbolGroups h1 ps"
  have p1: "applyTranscriptAssignments info h qs = (h1, ps)"
    by (simp add: h1_def ps_def phase1Heap_def applyTranscriptAssignments_eq)
  have SG: "SG = groupsBy (\<lambda>q. symbol (h1 q)) ps"
    by (simp add: SG_def symbolGroups_groupsBy)
  have dist: "distinct (map fst SG)" by (simp add: SG groupsBy_distinct)
  have sym: "\<And>s sq q. (s, sq) \<in> set SG \<Longrightarrow> q \<in> set sq \<Longrightarrow> symbol (h1 q) = s"
    by (simp add: SG groupsBy_member)
  have res: "fst (applyCompanyWideAnalystConsolidation h qs info) q =
     (case map_of SG (symbol (h1 q)) of
        Some sq \<Rightarrow> if q \<in> set sq then symbolResult h1 sq q else h1 q
      | None \<Rightarrow> h1 q)"
    unfolding applyCompanyWideAnalystConsolidation_def p1
    using consolidate_symbols [OF dist sym, where h = h1 and fin = "[]" and q = q]
    by (simp add: SG_def)
  have m: "map_of SG k = (if k \<in> (\<lambda>q. symbol (h1 q)) ` set ps then Some (filter (\<lambda>x. symbol (h1 x) = k) ps) else None)" for k
    by (simp add: SG groupsBy_map_of)
  have setps: "set ps = set qs" by (simp add: ps_def)
  show ?thesis
  proof (cases "q \<in> set qs")
    case True
    then have qps: "q \<in> set ps" by (simp add: setps)
    then have "symbolResult h1 (filter (\<lambda>x. symbol (h1 x) = symbol (h1 q)) ps) q
       = consolidated (canonicalName (h1 q)) (lastKnown h1 (identityMembers h1 ps q)) (h1 q)"
      by (simp add: symbolResult_def identityMembers_def)
    then show ?thesis
      unfolding res m using True qps by (simp add: h1_def ps_def)
  next
    case False
    then have "h1 q = h q" by (simp add: h1_def phase1Heap_def phase1_heap)
    then show ?thesis
      unfolding res m using False setps by simp
  qed
qed

lemma groupsInv_entries:
  assumes "groupsInv h sq G"
  shows "(\<Union>kg\<in>set G. set (entries (snd kg))) = set sq"
proof (intro set_eqI iffI)
  fix x assume "x \<in> (\<Union>kg\<in>set G. set (entries (snd kg)))"
  then show "x \<in> set sq" using assms by (auto simp add: groupsInv_def)
next
  fix x assume x: "x \<in> set sq"
  then have "canonicalName (h x) \<in> fst ` set G" using assms by (auto simp add: groupsInv_def)
  then obtain g where g: "(canonicalName (h x), g) \<in> set G" by auto
  then have "entries g = filter (\<lambda>q. canonicalName (h q) = canonicalName (h x)) sq"
    using assms by (auto simp add: groupsInv_def)
  then have "x \<in> set (entries g)" using x by simp
  then show "x \<in> (\<Union>kg\<in>set G. set (entries (snd kg)))" using g by force
qed

lemma consolidateSymbol_out:
  "set (snd (consolidateSymbol (h, fin) (s, sq))) = set fin \<union> set sq"
proof -
  have "set (snd (consolidateSymbol (h, fin) (s, sq)))
      = set fin \<union> (\<Union>kg\<in>set (analystNameGroups h sq). set (entries (snd kg)))"
    by (simp add: consolidateSymbol_def consolidate_groups_out)
  then show ?thesis
    by (simp only: groupsInv_entries [OF analystNameGroups_inv])
qed

lemma consolidate_symbols_out:
  "set (snd (foldl consolidateSymbol (h, fin) SG)) = set fin \<union> (\<Union>sg\<in>set SG. set (snd sg))"
proof (induction SG arbitrary: h fin)
  case Nil
  show ?case by simp
next
  case (Cons sg SG)
  obtain s sq where sg: "sg = (s, sq)" by (cases sg)
  obtain h' fin' where st: "consolidateSymbol (h, fin) (s, sq) = (h', fin')"
    by (cases "consolidateSymbol (h, fin) (s, sq)")
  have "set fin' = set fin \<union> set sq"
    using consolidateSymbol_out [of h fin s sq] by (simp add: st)
  then show ?case
    by (simp add: sg st Cons.IH Un_assoc)
qed

lemma consolidation_out: "set (snd (applyCompanyWideAnalystConsolidation h qs info)) = set qs"
proof -
  have "(\<Union>sg\<in>set (groupsBy f ps). set (snd sg)) = set ps" for f :: "ref \<Rightarrow> string" and ps
    using groupsBy_concat_set [of f ps] by simp
  then show ?thesis
    by (simp add: applyCompanyWideAnalystConsolidation_def applyTranscriptAssignments_eq
        consolidate_symbols_out symbolGroups_groupsBy)
qed

lemma phase1Heap_eq:
  "phase1Heap info h qs q = (if q \<in> set qs then operatorAssigned info (h q) else h q)"
  by (simp add: phase1Heap_def phase1_heap)

lemma operatorAssigned_fields [simp]:
  "analystName (operatorAssigned info r) = analystName r"
  "analystTitle (operatorAssigned info r) = analystTitle r"
  "question (operatorAssigned info r) = question r"
  "transcriptId (operatorAssigned info r) = transcriptId r"
  "symbol (operatorAssigned info r) = symbol r"
  "quarter (operatorAssigned info r) = quarter r"
  "year (operatorAssigned info r) = year r"
  "transcriptTitle (operatorAssigned info r) = transcriptTitle r"
  by (simp_all add: operatorAssigned_def split: option.splits)

lemma consolidated_fields [simp]:
  "analystName (consolidated nn k r) = nn"
  "analystCompany (consolidated nn k r) = (if k \<noteq> [] then k else analystCompany r)"
  "analystTitle (consolidated nn k r) = analystTitle r"
  "question (consolidated nn k r) = question r"
  "transcriptId (consolidated nn k r) = transcriptId r"
  "symbol (consolidated nn k r) = symbol r"
  "quarter (consolidated nn k r) = quarter r"
  "year (consolidated nn k r) = year r"
  "transcriptTitle (consolidated nn k r) = transcriptTitle r"
  by (simp_all add: consolidated_def)

lemma canonicalName_operatorAssigned [simp]:
  "canonicalName (operatorAssigned info r) = canonicalName r"
  by (simp add: canonicalName_def)

lemma lastKnown_all_unknown:
  "(\<And>e. e \<in> set es \<Longrightarrow> analystCompany (h e) = ''Unknown'') \<Longrightarrow> lastKnown h es = []"
  by (induction es rule: rev_induct) (simp_all add: lastKnown_snoc)

lemma lastKnown_agree:
  assumes "\<And>e. e \<in> set es \<Longrightarrow> analystCompany (h e) = ''Unknown'' \<or> analystCompany (h e) = c"
    and "\<exists>e\<in>set es. analystCompany (h e) = c" and "c \<noteq> ''Unknown''"
  shows "lastKnown h es = c"
  using assms
proof (induction es rule: rev_induct)
  case Nil
  then show ?case by simp
next
  case (snoc e es)
  show ?case
  proof (cases "analystCompany (h e) = ''Unknown''")
    case True
    then have "\<exists>e\<in>set es. analystCompany (h e) = c" using snoc.prems(2,3) by auto
    then have "lastKnown h es = c" using snoc.IH snoc.prems(1,3) by simp
    then show ?thesis using True by (simp add: lastKnown_snoc)
  next
    case False
    then have "analystCompany (h e) = c" using snoc.prems(1) [of e] by simp
    then show ?thesis using False by (simp add: lastKnown_snoc)
  qed
qed

lemma lastKnown_empty:
  assumes "lastKnown h es = []" and "\<And>e. e \<in> set es \<Longrightarrow> analystCompany (h e) \<noteq> []"
  shows "e \<in> set es \<Longrightarrow> analystCompany (h e) = ''Unknown''"
  using assms
proof (induction es rule: rev_induct)
  case Nil
  then show ?case by simp
next
  case (snoc x es)
  from snoc.prems(2,3) have x: "analystCompany (h x) = ''Unknown''" and l: "lastKnown h es = []"
    by (auto simp add: lastKnown_snoc split: if_splits)
  show ?case
  proof (cases "e = x")
    case True then show ?thesis using x by simp
  next
    case False
    then have "e \<in> set es" using snoc.prems(1) by simp
    then show ?thesis using snoc.IH l snoc.prems(3) by simp
  qed
qed

lemma lastKnown_known:
  "lastKnown h es \<noteq> ''Unknown''"
  by (induction es rule: rev_induct) (simp_all add: lastKnown_snoc)

lemma identityMembers_self: "q \<in> set ps \<Longrightarrow> q \<in> set (identityMembers h ps q)"
  by (simp add: identityMembers_def)

lemma identityMembers_set:
  "set (identityMembers h ps q) =
     {p \<in> set ps. symbol (h p) = symbol (h q) \<and> canonicalName (h p) = canonicalName (h q)}"
  by (auto simp add: identityMembers_def)




lemma phase1_symbol [simp]: "symbol (phase1Heap info h qs p) = symbol (h p)"
  by (simp add: phase1Heap_eq)

lemma phase1_canonical [simp]: "canonicalName (phase1Heap info h qs p) = canonicalName (h p)"
  by (simp add: phase1Heap_eq)




lemma canonicalName_consolidated [simp]:
  "canonicalName (consolidated (canonicalName r) k r') = canonicalName r"
  by (simp add: canonicalName_def)

lemma identityMembers_same:
  "symbol (h p) = symbol (h q) \<Longrightarrow> canonicalName (h p) = canonicalName (h q) \<Longrightarrow>
   identityMembers h ps p = identityMembers h ps q"
  by (simp add: identityMembers_def)

section \<open>Lemmas about extraction\<close>

lemma operatorInfoPass_raises:
  "t \<in> set ts \<Longrightarrow> extractOperatorAnalystInfo parse rx t = Inl TypeError \<Longrightarrow>
   operatorInfoPass parse rx ts globalInfo = Inl TypeError"
proof (induction ts arbitrary: globalInfo)
  case Nil
  then show ?case by simp
next
  case (Cons a ts)
  show ?case
  proof (cases "extractOperatorAnalystInfo parse rx a")
    case (Inl err)
    then show ?thesis by (cases err) simp
  next
    case (Inr info)
    then have "t \<noteq> a" using Cons.prems(2) by auto
    then have "t \<in> set ts" using Cons.prems(1) by simp
    then show ?thesis using Cons.IH Cons.prems(2) Inr by simp
  qed
qed




lemma preparedStatementOf_Some:
  "preparedStatementOf t spk = Some st \<Longrightarrow>
   speakerTitle st = orEmpty (title spk) \<and> \<not> isInvestorRelations (orEmpty (title spk))"
  by (auto simp add: preparedStatementOf_def Let_def split: if_splits)

lemma collectStatements_all:
  assumes "\<And>spk st. preparedStatementOf t spk = Some st \<Longrightarrow> P st"
  shows "(\<forall>st\<in>set acc. P st) \<Longrightarrow> \<forall>st\<in>set (collectStatements t es acc). P st"
proof (induction es arbitrary: acc)
  case Nil
  then show ?case by simp
next
  case (Cons e es)
  show ?case
  proof (cases "readProps e")
    case (Inl err)
    then show ?thesis using Cons.prems by simp
  next
    case (Inr spk)
    show ?thesis
    proof (cases "preparedStatementOf t spk")
      case None
      then show ?thesis using Inr Cons by simp
    next
      case (Some st)
      then have "\<forall>x\<in>set (acc @ [st]). P x" using Cons.prems assms by auto
      then have "\<forall>x\<in>set (collectStatements t es (acc @ [st])). P x" by (rule Cons.IH)
      then show ?thesis using Inr Some by simp
    qed
  qed
qed
section \<open>The claims about consolidation\<close>

text \<open>
  C7. Consolidation writes only \<open>analystName\<close> and \<open>analystCompany\<close>: after the
  transcript-local phase and after the whole of \<open>applyCompanyWideAnalystConsolidation\<close>,
  the question text, the title, the transcript id, the symbol, the quarter, the year and
  the transcript title of every record are what they were before.
\<close>

theorem consolidation_frame:
  "question (fst (applyCompanyWideAnalystConsolidation h qs info) q) = question (h q) \<and>
   analystTitle (fst (applyCompanyWideAnalystConsolidation h qs info) q) = analystTitle (h q) \<and>
   transcriptId (fst (applyCompanyWideAnalystConsolidation h qs info) q) = transcriptId (h q) \<and>
   symbol (fst (applyCompanyWideAnalystConsolidation h qs info) q) = symbol (h q) \<and>
   quarter (fst (applyCompanyWideAnalystConsolidation h qs info) q) = quarter (h q) \<and>
   year (fst (applyCompanyWideAnalystConsolidation h qs info) q) = year (h q) \<and>
   transcriptTitle (fst (applyCompanyWideAnalystConsolidation h qs info) q) = transcriptTitle (h q) \<and>
   question (fst (applyTranscriptAssignments info h qs) q) = question (h q) \<and>
   analystTitle (fst (applyTranscriptAssignments info h qs) q) = analystTitle (h q) \<and>
   transcriptId (fst (applyTranscriptAssignments info h qs) q) = transcriptId (h q) \<and>
   symbol (fst (applyTranscriptAssignments info h qs) q) = symbol (h q) \<and>
   quarter (fst (applyTranscriptAssignments info h qs) q) = quarter (h q) \<and>
   year (fst (applyTranscriptAssignments info h qs) q) = year (h q) \<and>
   transcriptTitle (fst (applyTranscriptAssignments info h qs) q) = transcriptTitle (h q)"
  by (simp add: consolidation_heap phase1Heap_eq phase1_heap)

theorem consolidation_frame_witness:
  "question (fst (applyCompanyWideAnalystConsolidation
      (heapOf [sampleQuestion ''Mike Ng'' ''Unknown'' 1 ''MSFT'',
               sampleQuestion ''Michael Ng'' ''Goldman Sachs'' 2 ''MSFT''])
      [0, 1] Map.empty) 0) = ''Can you comment on margins?'' \<and>
   analystTitle (fst (applyCompanyWideAnalystConsolidation
      (heapOf [sampleQuestion ''Mike Ng'' ''Unknown'' 1 ''MSFT'',
               sampleQuestion ''Michael Ng'' ''Goldman Sachs'' 2 ''MSFT''])
      [0, 1] Map.empty) 0) = ''Analyst'' \<and>
   symbol (fst (applyCompanyWideAnalystConsolidation
      (heapOf [sampleQuestion ''Mike Ng'' ''Unknown'' 1 ''MSFT'',
               sampleQuestion ''Michael Ng'' ''Goldman Sachs'' 2 ''MSFT''])
      [0, 1] Map.empty) 0) = ''MSFT''"
  using consolidation_frame [of "heapOf [sampleQuestion ''Mike Ng'' ''Unknown'' 1 ''MSFT'',
               sampleQuestion ''Michael Ng'' ''Goldman Sachs'' 2 ''MSFT'']" "[0, 1]" Map.empty 0]
  by (simp add: heapOf_def sampleQuestion_def)









text \<open>
  C3 (as amended). Consolidation is idempotent when the attribution map agrees with the
  consolidated records on canonical names (for every record whose canonical name is a
  key of the map, the company it ends with is already that key's normalised institution)
  and no record has an empty company after the transcript-local phase: applied with the
  same map to its own output, it changes no field of any record.
\<close>

theorem consolidation_idempotent:
  assumes agree: "\<forall>q\<in>set qs.
        (case info (trim (normalizeAnalystName (trim (analystName (h q))))) of
           None \<Rightarrow> True
         | Some c \<Rightarrow> analystCompany (fst (applyCompanyWideAnalystConsolidation h qs info) q) =
                      normalizeCompanyName c)"
    and nonempty: "\<forall>q\<in>set qs. analystCompany (fst (applyTranscriptAssignments info h qs) q) \<noteq> []"
  shows "fst (applyCompanyWideAnalystConsolidation
                (fst (applyCompanyWideAnalystConsolidation h qs info))
                (snd (applyCompanyWideAnalystConsolidation h qs info)) info)
         = fst (applyCompanyWideAnalystConsolidation h qs info)"
proof (rule ext)
  fix q
  define H where "H = fst (applyCompanyWideAnalystConsolidation h qs info)"
  define out where "out = snd (applyCompanyWideAnalystConsolidation h qs info)"
  define h1 where "h1 = phase1Heap info h qs"
  define ps where "ps = processedOrder h qs"
  define K where "K = (\<lambda>p. lastKnown h1 (identityMembers h1 ps p))"
  have out: "set out = set qs" by (simp add: out_def consolidation_out)
  have H: "H p = consolidated (canonicalName (h p)) (K p) (h1 p)" if "p \<in> set qs" for p
    using that by (simp add: H_def consolidation_heap K_def h1_def ps_def)
  have Hout: "H p = h p" if "p \<notin> set qs" for p
    using that by (simp add: H_def consolidation_heap)
  have cn: "canonicalName (H p) = canonicalName (h p)" if "p \<in> set qs" for p
    using H [OF that] by simp
  have sy: "symbol (H p) = symbol (h p)" if "p \<in> set qs" for p
    using H [OF that] by (simp add: h1_def)
  have stay: "operatorAssigned info (H p) = H p" if "p \<in> set qs" for p
  proof -
    have nm: "analystName (H p) = normalizeAnalystName (trim (analystName (h p)))"
      using H [OF that] by (simp add: canonicalName_def)
    from agree that
    have "case info (trim (normalizeAnalystName (trim (analystName (h p))))) of None \<Rightarrow> True
        | Some c \<Rightarrow> analystCompany (H p) = normalizeCompanyName c"
      unfolding H_def by blast
    then show ?thesis by (simp add: operatorAssigned_def nm split: option.splits)
  qed
  have H1: "phase1Heap info H out = H"
    by (rule ext) (simp add: phase1Heap_eq out stay)
  define M2 where "M2 = identityMembers H (processedOrder H out) q"
  have second: "fst (applyCompanyWideAnalystConsolidation H out info) q =
      (if q \<in> set qs then consolidated (canonicalName (H q)) (lastKnown H M2) (H q) else H q)"
    by (simp add: consolidation_heap H1 out M2_def)
  show "fst (applyCompanyWideAnalystConsolidation
                (fst (applyCompanyWideAnalystConsolidation h qs info))
                (snd (applyCompanyWideAnalystConsolidation h qs info)) info) q
         = fst (applyCompanyWideAnalystConsolidation h qs info) q"
  proof (cases "q \<in> set qs")
    case False
    then show ?thesis using second by (simp add: H_def out_def)
  next
    case True
    have M2: "p \<in> set M2 \<longleftrightarrow> p \<in> set qs \<and> symbol (h p) = symbol (h q) \<and>
        canonicalName (h p) = canonicalName (h q)" for p
      using True by (auto simp add: M2_def identityMembers_set out sy cn)
    have qM2: "q \<in> set M2" using True by (simp add: M2)
    have Kp: "K p = K q" if "p \<in> set M2" for p
      using that unfolding K_def by (intro arg_cong [where f = "lastKnown h1"] identityMembers_same)
        (simp_all add: M2 h1_def)
    have comp: "analystCompany (H p) = (if K q \<noteq> [] then K q else analystCompany (h1 p))"
      if "p \<in> set M2" for p
      using that H [of p] Kp [OF that] by (simp add: M2)
    have lk: "lastKnown H M2 = K q"
    proof (cases "K q = []")
      case False
      have "K q \<noteq> ''Unknown''" by (simp add: K_def lastKnown_known)
      then show ?thesis using comp qM2 False by (intro lastKnown_agree) auto
    next
      case empty: True
      have M1: "set (identityMembers h1 ps q) = set M2"
        by (auto simp add: identityMembers_set M2 h1_def ps_def)
      have "analystCompany (h1 p) = ''Unknown''" if "p \<in> set M2" for p
      proof (rule lastKnown_empty [where es = "identityMembers h1 ps q"])
        show "lastKnown h1 (identityMembers h1 ps q) = []" using empty by (simp add: K_def)
        show "p \<in> set (identityMembers h1 ps q)" using that M1 by simp
        show "analystCompany (h1 e) \<noteq> []" if "e \<in> set (identityMembers h1 ps q)" for e
          using nonempty that M1 by (simp add: M2 h1_def phase1Heap_def)
      qed
      then have "lastKnown H M2 = []" using comp empty by (intro lastKnown_all_unknown) simp
      then show ?thesis using empty by simp
    qed
    have "consolidated (canonicalName (H q)) (lastKnown H M2) (H q) = H q"
      using H [OF True] by (simp add: cn [OF True] lk)
    then show ?thesis using True second by (simp add: H_def out_def)
  qed
qed

theorem consolidation_idempotent_witness:
  "fst (applyCompanyWideAnalystConsolidation
          (fst (applyCompanyWideAnalystConsolidation
             (heapOf [sampleQuestion ''Keith Weiss'' ''Goldman Sachs'' 1 ''MSFT'',
                      sampleQuestion ''Mike Ng'' ''Unknown'' 2 ''MSFT''])
             [0, 1] [''Keith Weiss'' \<mapsto> ''Morgan Stanley'']))
          (snd (applyCompanyWideAnalystConsolidation
             (heapOf [sampleQuestion ''Keith Weiss'' ''Goldman Sachs'' 1 ''MSFT'',
                      sampleQuestion ''Mike Ng'' ''Unknown'' 2 ''MSFT''])
             [0, 1] [''Keith Weiss'' \<mapsto> ''Morgan Stanley'']))
          [''Keith Weiss'' \<mapsto> ''Morgan Stanley''])
   = fst (applyCompanyWideAnalystConsolidation
             (heapOf [sampleQuestion ''Keith Weiss'' ''Goldman Sachs'' 1 ''MSFT'',
                      sampleQuestion ''Mike Ng'' ''Unknown'' 2 ''MSFT''])
             [0, 1] [''Keith Weiss'' \<mapsto> ''Morgan Stanley''])"
proof -
  let ?h = "heapOf [sampleQuestion ''Keith Weiss'' ''Goldman Sachs'' 1 ''MSFT'',
                      sampleQuestion ''Mike Ng'' ''Unknown'' 2 ''MSFT'']"
  let ?info = "[''Keith Weiss'' \<mapsto> ''Morgan Stanley'']"
  have a: "\<forall>q\<in>set [0, 1::nat].
        (case ?info (trim (normalizeAnalystName (trim (analystName (?h q))))) of
           None \<Rightarrow> True
         | Some c \<Rightarrow> analystCompany (fst (applyCompanyWideAnalystConsolidation ?h [0, 1] ?info) q) =
                      normalizeCompanyName c)"
    by code_simp
  have b: "\<forall>q\<in>set [0, 1::nat]. analystCompany (fst (applyTranscriptAssignments ?info ?h [0, 1]) q) \<noteq> []"
    by code_simp
  show ?thesis by (rule consolidation_idempotent [OF a b])
qed

text \<open>The claim as first stated fails: the first run renames \<open>Mike Ng\<close> to
  \<open>Michael Ng\<close>, and on the second run that canonical name is a key of the attribution
  map, so the company changes from \<open>Unknown\<close> to Goldman Sachs.\<close>

theorem consolidation_idempotent_counterexample:
  "analystCompany (fst (applyCompanyWideAnalystConsolidation
      (heapOf [sampleQuestion ''Mike Ng'' ''Unknown'' 1 ''MSFT'']) [0]
      [''Michael Ng'' \<mapsto> ''Goldman Sachs'']) 0) = ''Unknown'' \<and>
   analystCompany (fst (applyCompanyWideAnalystConsolidation
      (fst (applyCompanyWideAnalystConsolidation
         (heapOf [sampleQuestion ''Mike Ng'' ''Unknown'' 1 ''MSFT'']) [0]
         [''Michael Ng'' \<mapsto> ''Goldman Sachs'']))
      (snd (applyCompanyWideAnalystConsolidation
         (heapOf [sampleQuestion ''Mike Ng'' ''Unknown'' 1 ''MSFT'']) [0]
         [''Michael Ng'' \<mapsto> ''Goldman Sachs'']))
      [''Michael Ng'' \<mapsto> ''Goldman Sachs'']) 0) = ''Goldman Sachs''"
  by code_simp

section \<open>The claim about single-token names\<close>




section \<open>The claims about extraction\<close>

text \<open>
  C4 (the code departs from the claim). Extraction raises on content that is JSON but no
  array: \<open>JSON.parse\<close> succeeds, so the \<open>catch\<close> is not entered, and \<open>for ... of\<close>
  over the parsed value raises a \<open>TypeError\<close>, in \<open>extractOperatorAnalystInfo\<close> and in
  \<open>extractAnalystQuestionsFromSingleTranscript\<close>. Nothing catches it, so one such
  transcript aborts the whole batch.
\<close>

theorem malformed_json_aborts_batch:
  assumes "t \<in> set ts" and "parse (trContent t) = Some NotIterable"
  shows "extractOperatorAnalystInfo parse rx t = Inl TypeError \<and>
         extractAnalystQuestionsFromSingleTranscript parse rx t info = Inl TypeError \<and>
         extractAnalystQuestionsFromMultipleTranscripts parse rx ts = Inl TypeError"
proof -
  have a: "extractOperatorAnalystInfo parse rx t = Inl TypeError"
    using assms(2) by (simp add: extractOperatorAnalystInfo_def segmentsOf_def)
  have b: "extractAnalystQuestionsFromSingleTranscript parse rx t info = Inl TypeError"
    using assms(2) by (simp add: extractAnalystQuestionsFromSingleTranscript_def segmentsOf_def)
  have "operatorInfoPass parse rx ts Map.empty = Inl TypeError"
    using assms(1) a by (rule operatorInfoPass_raises)
  then have "extractAnalystQuestionsFromMultipleTranscripts parse rx ts = Inl TypeError"
    by (simp add: extractAnalystQuestionsFromMultipleTranscripts_def)
  with a b show ?thesis by simp
qed

theorem malformed_json_aborts_batch_witness:
  "extractAnalystQuestionsFromMultipleTranscripts sampleParse noMatch
     [sampleTranscript 1 ''[]'', sampleTranscript 2 ''{}''] = Inl TypeError \<and>
   extractAnalystQuestionsFromMultipleTranscripts sampleParse noMatch
     [sampleTranscript 1 ''[]''] = Inr []"
proof -
  have a: "sampleTranscript 2 ''{}'' \<in> set [sampleTranscript 1 ''[]'', sampleTranscript 2 ''{}'']"
    by simp
  have b: "sampleParse (trContent (sampleTranscript 2 ''{}'')) = Some NotIterable"
    by (simp add: sampleTranscript_def sampleParse_def)
  have c: "extractAnalystQuestionsFromMultipleTranscripts sampleParse noMatch
     [sampleTranscript 1 ''[]''] = Inr []"
    by code_simp
  show ?thesis
    using malformed_json_aborts_batch [where parse = sampleParse and rx = noMatch, OF a b] c by blast
qed

text \<open>
  C5 (the code departs from the claim). \<open>extractOperatorAnalystInfo\<close> scans the turns
  whose \<open>speaker\<close> contains \<open>operator\<close>, not those whose \<open>title\<close> does: a turn titled
  \<open>Operator\<close> and spoken by \<open>Jane Smith\<close> contributes nothing, and a turn spoken by
  \<open>Operator\<close> with the title \<open>Moderator\<close> is scanned.
\<close>

theorem operator_gate_reads_speaker:
  "extractOperatorAnalystInfo
     (\<lambda>text. Some (Array [sampleTurn ''Jane Smith'' ''Operator'' introduction])) rx t = Inr Map.empty \<and>
   extractOperatorAnalystInfo
     (\<lambda>text. Some (Array [sampleTurn ''Operator'' ''Moderator'' introduction])) rx t =
     Inr (scanOperatorContent rx introduction Map.empty)"
proof -
  have a: "\<not> includesStr (toLowerCase ''Jane Smith'') ''operator''" by code_simp
  have b: "includesStr (toLowerCase ''Operator'') ''operator''" by code_simp
  show ?thesis
    by (simp add: extractOperatorAnalystInfo_def segmentsOf_def sampleTurn_def a b orEmpty_def
        del: includesStr.simps)
qed

theorem operator_gate_reads_speaker_witness:
  "extractOperatorAnalystInfo
     (\<lambda>text. Some (Array [sampleTurn ''Jane Smith'' ''Operator'' ''Keith Weiss with Morgan Stanley.'']))
     introductionMatches (sampleTranscript 1 ''[]'') = Inr Map.empty \<and>
   (case extractOperatorAnalystInfo
     (\<lambda>text. Some (Array [sampleTurn ''Operator'' ''Moderator'' ''Keith Weiss with Morgan Stanley.'']))
     introductionMatches (sampleTranscript 1 ''[]'') of
      Inl err \<Rightarrow> None
    | Inr info \<Rightarrow> info ''Keith Weiss'') = Some ''Morgan Stanley''"
proof -
  have "(case extractOperatorAnalystInfo
     (\<lambda>text. Some (Array [sampleTurn ''Operator'' ''Moderator'' ''Keith Weiss with Morgan Stanley.'']))
     introductionMatches (sampleTranscript 1 ''[]'') of
      Inl err \<Rightarrow> None
    | Inr info \<Rightarrow> info ''Keith Weiss'') = Some ''Morgan Stanley''"
    by code_simp
  then show ?thesis
    using operator_gate_reads_speaker [of "''Keith Weiss with Morgan Stanley.''" introductionMatches
        "sampleTranscript 1 ''[]''"]
    by blast
qed

section \<open>The claims about prepared statements\<close>




text \<open>
  C9. A turn whose title contains \<open>investor relations\<close>, in any letter case, gives no
  prepared statement, and no statement \<open>extractPreparedStatements\<close> returns has such a
  title: the exclusion stands although \<open>Director of Investor Relations\<close> matches the
  executive roster through \<open>Director\<close>.
\<close>

theorem investor_relations_excluded:
  assumes "includesStr (toLowerCase (orEmpty (title spk))) ''investor relations''"
  shows "preparedStatementOf transcript spk = None \<and>
         (\<forall>st\<in>set (extractPreparedStatements parse rx transcript).
            \<not> includesStr (toLowerCase (speakerTitle st)) ''investor relations'') \<and>
         isExecutive ''Director of Investor Relations''"
proof -
  have a: "preparedStatementOf transcript spk = None"
    using assms by (simp add: preparedStatementOf_def Let_def isInvestorRelations_def del: includesStr.simps)
  have P: "\<not> includesStr (toLowerCase (speakerTitle st)) ''investor relations''"
    if "preparedStatementOf transcript s = Some st" for s st
    using preparedStatementOf_Some [OF that] by (simp add: isInvestorRelations_def del: includesStr.simps)
  have cs: "\<forall>st\<in>set (collectStatements transcript es []).
            \<not> includesStr (toLowerCase (speakerTitle st)) ''investor relations''" for es
    by (rule collectStatements_all [where P = "\<lambda>st. \<not> includesStr (toLowerCase (speakerTitle st)) ''investor relations''"])
       (use P in auto)
  have b: "\<forall>st\<in>set (extractPreparedStatements parse rx transcript).
            \<not> includesStr (toLowerCase (speakerTitle st)) ''investor relations''"
  proof
    fix st assume st: "st \<in> set (extractPreparedStatements parse rx transcript)"
    then obtain es where "st \<in> set (collectStatements transcript es [])"
      by (auto simp add: extractPreparedStatements_def split: option.splits sum.splits
          simp del: includesStr.simps)
    then show "\<not> includesStr (toLowerCase (speakerTitle st)) ''investor relations''"
      using cs by blast
  qed
  have c: "isExecutive ''Director of Investor Relations''" by code_simp
  from a b c show ?thesis by blast
qed

theorem investor_relations_excluded_witness:
  "preparedStatementOf (sampleTranscript 1 ''[]'')
     \<lparr>speaker = Some ''Jane Roe'', title = Some ''Director of Investor Relations'',
      content = Some sampleRemarks\<rparr> = None \<and>
   isExecutive ''Director of Investor Relations'' \<and>
   map speakerName (extractPreparedStatements
     (\<lambda>text. Some (Array [sampleTurn ''Jane Roe'' ''Director of Investor Relations'' sampleRemarks,
                          sampleTurn ''John Doe'' ''CEO'' sampleRemarks]))
     noMatch (sampleTranscript 1 ''[]'')) = [''John Doe'']"
proof -
  let ?spk = "\<lparr>speaker = Some ''Jane Roe'', title = Some ''Director of Investor Relations'',
      content = Some sampleRemarks\<rparr>"
  have a: "includesStr (toLowerCase (orEmpty (title ?spk))) ''investor relations''" by code_simp
  have b: "map speakerName (extractPreparedStatements
     (\<lambda>text. Some (Array [sampleTurn ''Jane Roe'' ''Director of Investor Relations'' sampleRemarks,
                          sampleTurn ''John Doe'' ''CEO'' sampleRemarks]))
     noMatch (sampleTranscript 1 ''[]'')) = [''John Doe'']" by code_simp
  show ?thesis
    using investor_relations_excluded [OF a, of "sampleTranscript 1 ''[]''"] b by blast
qed

end
